theory Spec2Isabelle
  imports Complex_Main "HOL-Library.AList" "HOL-Library.Log_Nat"
begin

section \<open>Strings as the analyzer uses them\<close>

text \<open>
  File names and file contents are JavaScript strings. They are modelled as
  \<^typ>\<open>string\<close>, one \<^typ>\<open>char\<close> per code unit, which covers the code points
  U+0000 to U+00FF. On that range the white space of \<^verbatim>\<open>String.prototype.trim\<close> and of
  the regular-expression class \<^verbatim>\<open>\s\<close> is TAB, LF, VT, FF, CR, SPACE and NBSP, and the
  class \<^verbatim>\<open>\w\<close> is \<^verbatim>\<open>[A-Za-z0-9_]\<close>.
\<close>

definition newline :: char where
  "newline = CHR 0x0A"

definition is_space :: "char \<Rightarrow> bool" where
  "is_space c = (c \<in> set [CHR 0x09, CHR 0x0A, CHR 0x0B, CHR 0x0C, CHR 0x0D, CHR 0x20, CHR 0xA0])"

definition is_word :: "char \<Rightarrow> bool" where
  "is_word c =
     (let n = (of_char c :: nat)
      in (65 \<le> n \<and> n \<le> 90) \<or> (97 \<le> n \<and> n \<le> 122) \<or> (48 \<le> n \<and> n \<le> 57) \<or> n = 95)"

text \<open>\<^verbatim>\<open>s.trim()\<close>: white space removed at both ends.\<close>

definition trim :: "string \<Rightarrow> string" where
  "trim s = rev (dropWhile is_space (rev (dropWhile is_space s)))"

text \<open>\<^verbatim>\<open>s.split(d)\<close> for a one-character separator: the empty string gives one empty piece.\<close>

fun split_on :: "char \<Rightarrow> string \<Rightarrow> string list" where
  "split_on d [] = [[]]"
| "split_on d (c # cs) =
     (if c = d then [] # split_on d cs
      else (case split_on d cs of
              [] \<Rightarrow> [[c]]
            | l # ls \<Rightarrow> (c # l) # ls))"

definition startsWith :: "string \<Rightarrow> string \<Rightarrow> bool" where
  "startsWith s p = (take (length p) s = p)"

definition endsWith :: "string \<Rightarrow> string \<Rightarrow> bool" where
  "endsWith s p = (length p \<le> length s \<and> drop (length s - length p) s = p)"

text \<open>
  \<^verbatim>\<open>s.toLowerCase()\<close> on U+0000 to U+00FF: the letters A to Z, and the accented capitals
  U+00C0 to U+00DE without the multiplication sign U+00D7, move up by 32.
\<close>

definition lower_char :: "char \<Rightarrow> char" where
  "lower_char c =
     (let n = (of_char c :: nat)
      in if (65 \<le> n \<and> n \<le> 90) \<or> (192 \<le> n \<and> n \<le> 222 \<and> n \<noteq> 215) then char_of (n + 32) else c)"

definition toLowerCase :: "string \<Rightarrow> string" where
  "toLowerCase s = map lower_char s"

section \<open>Comment Counter\<close>

text \<open>
  \<^verbatim>\<open>countCommentLines(content, ext)\<close> of \<^verbatim>\<open>analyzer.js\<close>: the loop body, one line at a
  time, with the counter passed through. The chain of \<^verbatim>\<open>else if\<close> on the extension is
  kept in the order of the source.
\<close>

definition comment_step :: "string \<Rightarrow> nat \<Rightarrow> string \<Rightarrow> nat" where
  "comment_step ext commentCount line =
     (let trimmed = trim line in
      if trimmed = [] then commentCount
      else if ext = ''.js'' \<or> ext = ''.jsx'' \<or> ext = ''.ts'' \<or> ext = ''.tsx'' then
        (if startsWith trimmed ''//'' \<or> startsWith trimmed ''/*'' \<or> startsWith trimmed ''*''
         then commentCount + 1 else commentCount)
      else if ext = ''.py'' then
        (if startsWith trimmed ''#'' then commentCount + 1 else commentCount)
      else if ext = ''.java'' \<or> ext = ''.cpp'' \<or> ext = ''.c'' \<or> ext = ''.h'' \<or> ext = ''.cs'' then
        (if startsWith trimmed ''//'' \<or> startsWith trimmed ''/*'' \<or> startsWith trimmed ''*''
         then commentCount + 1 else commentCount)
      else if ext = ''.html'' \<or> ext = ''.xml'' then
        (if startsWith trimmed ''<!--'' then commentCount + 1 else commentCount)
      else if ext = ''.css'' \<or> ext = ''.scss'' \<or> ext = ''.sass'' then
        (if startsWith trimmed ''/*'' \<or> startsWith trimmed ''*'' then commentCount + 1 else commentCount)
      else if ext = ''.sh'' \<or> ext = ''.bat'' \<or> ext = ''.ps1'' then
        (if startsWith trimmed ''#'' then commentCount + 1 else commentCount)
      else commentCount)"

definition countCommentLines :: "string \<Rightarrow> string \<Rightarrow> nat" where
  "countCommentLines content ext = foldl (comment_step ext) 0 (split_on newline content)"

text \<open>The extensions that have a branch in the Comment Counter.\<close>

definition commentFamilies :: "string list" where
  "commentFamilies =
     [''.js'', ''.jsx'', ''.ts'', ''.tsx'', ''.py'', ''.java'', ''.cpp'', ''.c'', ''.h'', ''.cs'',
      ''.html'', ''.xml'', ''.css'', ''.scss'', ''.sass'', ''.sh'', ''.bat'', ''.ps1'']"

definition nonEmptyLines :: "string \<Rightarrow> string list" where
  "nonEmptyLines content = filter (\<lambda>line. trim line \<noteq> []) (split_on newline content)"

section \<open>File Classifier\<close>

text \<open>
  \<^verbatim>\<open>path.basename\<close> and \<^verbatim>\<open>path.extname\<close> of Node.js (POSIX flavour) on the paths the
  walker builds, which never end in a slash: the base name is what follows the last
  slash; the extension runs from the last dot of the base name to its end, and is empty
  when there is no dot, when the last dot is the first character, or when the base name
  is \<^verbatim>\<open>..\<close>.
\<close>

definition basename :: "string \<Rightarrow> string" where
  "basename p = rev (takeWhile (\<lambda>c. c \<noteq> CHR ''/'') (rev p))"

definition extname :: "string \<Rightarrow> string" where
  "extname p =
     (let b = basename p;
          after = takeWhile (\<lambda>c. c \<noteq> CHR ''.'') (rev b);
          upto = dropWhile (\<lambda>c. c \<noteq> CHR ''.'') (rev b)
      in if upto = [] then []
         else if tl upto = [] then []
         else if b = ''..'' then []
         else CHR ''.'' # rev after)"

definition textExtensions :: "string list" where
  "textExtensions =
     [''.js'', ''.jsx'', ''.ts'', ''.tsx'', ''.py'', ''.java'', ''.cpp'', ''.c'', ''.h'',
      ''.cs'', ''.php'', ''.rb'', ''.go'', ''.rs'', ''.swift'', ''.kt'', ''.scala'',
      ''.html'', ''.css'', ''.scss'', ''.sass'', ''.less'', ''.vue'', ''.svelte'',
      ''.json'', ''.xml'', ''.yaml'', ''.yml'', ''.md'', ''.txt'', ''.sh'', ''.bat'',
      ''.ps1'', ''.sql'', ''.r'', ''.m'', ''.scm'', ''.lisp'', ''.clj'', ''.hs'',
      ''.ml'', ''.fs'', ''.vb'', ''.dart'', ''.elm'', ''.ex'', ''.exs'', ''.erl'']"

definition isTextFile :: "string \<Rightarrow> bool" where
  "isTextFile ext = (ext \<in> set textExtensions)"

definition mainCodeExtensions :: "string list" where
  "mainCodeExtensions =
     [''.js'', ''.jsx'', ''.ts'', ''.tsx'', ''.py'', ''.java'', ''.cpp'', ''.c'', ''.h'',
      ''.cs'', ''.php'', ''.rb'', ''.go'', ''.rs'', ''.swift'', ''.kt'', ''.scala'',
      ''.vue'', ''.svelte'', ''.dart'', ''.elm'', ''.ex'', ''.exs'', ''.erl'']"

definition isMainCodeFile :: "string \<Rightarrow> bool" where
  "isMainCodeFile ext = (ext \<in> set mainCodeExtensions)"

text \<open>
  The test patterns are literal words matched without regard to case, anywhere in the
  string: \<^verbatim>\<open>/test/i\<close>, \<^verbatim>\<open>/spec/i\<close>, \<^verbatim>\<open>/__tests__/i\<close>, \<^verbatim>\<open>/\.test\./i\<close>, \<^verbatim>\<open>/\.spec\./i\<close>.
\<close>

fun contains :: "string \<Rightarrow> string \<Rightarrow> bool" where
  "contains [] p = (p = [])"
| "contains (c # cs) p = (take (length p) (c # cs) = p \<or> contains cs p)"

definition test_i :: "string \<Rightarrow> string \<Rightarrow> bool" where
  "test_i pattern s = contains (toLowerCase s) pattern"

definition testPatterns :: "string list" where
  "testPatterns = [''test'', ''spec'', ''__tests__'', ''.test.'', ''.spec.'']"

definition isTestFile :: "string \<Rightarrow> string \<Rightarrow> bool" where
  "isTestFile fileName filePath =
     list_ex (\<lambda>pattern. test_i pattern fileName \<or> test_i pattern filePath) testPatterns"

section \<open>Regular expressions of the Pattern Detector\<close>

text \<open>
  The six expressions of \<^verbatim>\<open>analyzeCodeContent\<close> use literals, alternatives of literals,
  character classes under \<^verbatim>\<open>*\<close>, \<^verbatim>\<open>+\<close> and the lazy \<^verbatim>\<open>*?\<close>, and the word boundary
  \<^verbatim>\<open>\b\<close>. \<open>ends r s i\<close> lists the positions where a match of \<open>r\<close> that starts at
  position \<open>i\<close> of \<open>s\<close> can end, in the order a backtracking matcher tries them: the
  first element is the match JavaScript reports.
\<close>

datatype rx =
    Lit string
  | Star "char \<Rightarrow> bool"
  | Plus "char \<Rightarrow> bool"
  | LazyStar "char \<Rightarrow> bool"
  | WordB
  | Seq rx rx
  | Alt rx rx

definition wordBoundary :: "string \<Rightarrow> nat \<Rightarrow> bool" where
  "wordBoundary s i =
     ((0 < i \<and> is_word (s ! (i - 1))) \<noteq> (i < length s \<and> is_word (s ! i)))"

definition run :: "(char \<Rightarrow> bool) \<Rightarrow> string \<Rightarrow> nat \<Rightarrow> nat" where
  "run P s i = length (takeWhile P (drop i s))"

fun ends :: "rx \<Rightarrow> string \<Rightarrow> nat \<Rightarrow> nat list" where
  "ends (Lit w) s i = (if take (length w) (drop i s) = w then [i + length w] else [])"
| "ends (Star P) s i = rev (map (\<lambda>k. i + k) [0 ..< Suc (run P s i)])"
| "ends (Plus P) s i = rev (map (\<lambda>k. i + k) [1 ..< Suc (run P s i)])"
| "ends (LazyStar P) s i = map (\<lambda>k. i + k) [0 ..< Suc (run P s i)]"
| "ends WordB s i = (if wordBoundary s i then [i] else [])"
| "ends (Seq a b) s i = concat (map (ends b s) (ends a s i))"
| "ends (Alt a b) s i = ends a s i @ ends b s i"

fun seqs :: "rx list \<Rightarrow> rx" where
  "seqs [] = Lit []"
| "seqs [r] = r"
| "seqs (r # rs) = Seq r (seqs rs)"

fun alts :: "string list \<Rightarrow> rx" where
  "alts [] = Alt (Lit []) (Lit [])"
| "alts [w] = Lit w"
| "alts (w # ws) = Alt (Lit w) (alts ws)"

text \<open>
  \<^verbatim>\<open>content.match(r)\<close> with the flag \<^verbatim>\<open>g\<close>: matches are searched from left to right,
  each search starting where the last match ended (one further after an empty match).
  \<open>count_matches r s i\<close> is the number of matches found from position \<open>i\<close> on, that
  is, the \<^verbatim>\<open>length\<close> of the array (0 when \<^verbatim>\<open>match\<close> returns \<^verbatim>\<open>null\<close>).
\<close>

function count_matches :: "rx \<Rightarrow> string \<Rightarrow> nat \<Rightarrow> nat" where
  "count_matches r s i =
     (if length s < i then 0
      else (case ends r s i of
              [] \<Rightarrow> count_matches r s (Suc i)
            | j # _ \<Rightarrow> Suc (count_matches r s (if j \<le> i then Suc i else j))))"
  by pat_completeness auto
termination
  by (relation "measure (\<lambda>(r, s, i). Suc (length s) - i)") auto

definition matchCount :: "rx \<Rightarrow> string \<Rightarrow> nat" where
  "matchCount r content = count_matches r content 0"

definition any_char :: "char \<Rightarrow> bool" where
  "any_char c = True"

definition genericPatterns :: "rx list" where
  "genericPatterns =
     [seqs [WordB, alts [''data'', ''result'', ''value'', ''item'', ''temp'', ''tempVar'',
                         ''tempValue'', ''tempData''], WordB],
      seqs [WordB, alts [''user'', ''users'', ''item'', ''items'', ''data'', ''datas'',
                         ''list'', ''lists''], WordB],
      seqs [WordB, alts [''handle'', ''process'', ''execute'', ''perform'', ''do'', ''run''],
            Star is_word, WordB]]"

definition boilerplatePatterns :: "rx list" where
  "boilerplatePatterns =
     [seqs [Lit ''function'', Plus is_space, Plus is_word, Star is_space, Lit ''('',
            Star is_space, Lit '')'', Star is_space, Lit ''{'', LazyStar any_char, Lit ''}''],
      seqs [Lit ''class'', Plus is_space, Plus is_word, Star is_space, Lit ''{'',
            LazyStar any_char, Lit ''}''],
      seqs [Lit ''const'', Plus is_space, Plus is_word, Star is_space, Lit ''='',
            Star is_space, Lit ''('', Star (\<lambda>c. c \<noteq> CHR '')''), Lit '')'', Star is_space,
            Lit ''=>'', Star is_space, Lit ''{'', LazyStar any_char, Lit ''}'']]"

text \<open>The sums the two \<^verbatim>\<open>forEach\<close> loops accumulate.\<close>

definition genericCount :: "string \<Rightarrow> nat" where
  "genericCount content = foldl (\<lambda>n pattern. n + matchCount pattern content) 0 genericPatterns"

definition boilerplateCount :: "string \<Rightarrow> nat" where
  "boilerplateCount content =
     foldl (\<lambda>n pattern. n + matchCount pattern content) 0 boilerplatePatterns"

section \<open>JavaScript numbers\<close>

text \<open>
  A Number is an IEEE 754 double, modelled by the rational it denotes. The counts of
  lines and files are integers below \<open>2 ^ 53\<close>, which are doubles. A quotient or a product
  is the exact result rounded to the nearest double, that is, to 53 significant bits, a
  tie going to the even significand; a decimal literal such as \<^verbatim>\<open>0.95\<close> is the double
  nearest to it. The exponent is not bounded in the model: the numbers met here are 0
  or lie far from the smallest and the largest double.

  \<open>binade x\<close> is the exponent \<open>e\<close> with \<open>2 ^ e \<le> x < 2 ^ (e + 1)\<close> for a positive \<open>x\<close>,
  found from the bit lengths of its numerator and denominator.
\<close>

definition binade :: "rat \<Rightarrow> int" where
  "binade x =
     (let (a, b) = quotient_of x;
          d = bitlen a - bitlen b
      in if 2 powi d \<le> x then d else d - 1)"

definition roundTiesToEven :: "rat \<Rightarrow> int" where
  "roundTiesToEven m =
     (let f = \<lfloor>m\<rfloor>;
          d = m - of_int f
      in if d < 1 / 2 then f
         else if 1 / 2 < d then f + 1
         else if even f then f else f + 1)"

definition toDouble :: "rat \<Rightarrow> rat" where
  "toDouble x =
     (if x = 0 then 0
      else
        let ulp = 2 powi (binade \<bar>x\<bar> - 52)
        in sgn x * of_int (roundTiesToEven (\<bar>x\<bar> / ulp)) * ulp)"

definition jsDivide :: "rat \<Rightarrow> rat \<Rightarrow> rat" where
  "jsDivide a b = toDouble (a / b)"

definition jsTimes :: "rat \<Rightarrow> rat \<Rightarrow> rat" where
  "jsTimes a b = toDouble (a * b)"

text \<open>\<^verbatim>\<open>Math.round\<close>: the nearest integer, a tie going up.\<close>

definition mathRound :: "rat \<Rightarrow> int" where
  "mathRound x = \<lfloor>x + 1 / 2\<rfloor>"

section \<open>Pattern Detector\<close>

text \<open>
  \<^verbatim>\<open>checkIndentationConsistency(lines)\<close>. The indentation of a line is the length of
  its leading white space (\<^verbatim>\<open>/^(\s*)/\<close>); \<open>spaces\<close> counts the indentations divisible
  by 4 and \<open>tabs\<close> those that are positive (\<^verbatim>\<open>indent % 1 === 0 && indent > 0\<close>).
  The ratio is a quotient of two counts, computed in doubles.
\<close>

definition indentOf :: "string \<Rightarrow> nat" where
  "indentOf line = length (takeWhile is_space line)"

definition indentationsOf :: "string list \<Rightarrow> nat list" where
  "indentationsOf lines = map indentOf (filter (\<lambda>line. 0 < length (trim line)) lines)"

definition checkIndentationConsistency :: "string list \<Rightarrow> rat" where
  "checkIndentationConsistency lines =
     (let indentations = indentationsOf lines in
      if length indentations = 0 then 1
      else
        let spaces = length (filter (\<lambda>indent. indent mod 4 = 0) indentations);
            tabs = length (filter (\<lambda>indent. indent mod 1 = 0 \<and> 0 < indent) indentations)
        in jsDivide (of_nat (max spaces tabs)) (of_nat (length indentations)))"

text \<open>\<^verbatim>\<open>line.trim().replace(/\s+/g, ' ')\<close>: every run of white space becomes one space.\<close>

function collapse :: "string \<Rightarrow> string" where
  "collapse [] = []"
| "collapse (c # cs) =
     (if is_space c then CHR '' '' # collapse (dropWhile is_space cs) else c # collapse cs)"
  by pat_completeness auto
termination
  by (relation "measure length") (auto simp: length_dropWhile_le less_Suc_eq_le)

definition normalize :: "string \<Rightarrow> string" where
  "normalize line = collapse (trim line)"

text \<open>
  \<^verbatim>\<open>lineCounts\<close> is a plain object used as a dictionary, so a key is also looked up in
  \<^verbatim>\<open>Object.prototype\<close>. For a key that names one of its methods,
  \<^verbatim>\<open>(lineCounts[k] || 0) + 1\<close> is the method's text followed by \<^verbatim>\<open>1\<close>, a string
  that is not a number, and stays one at every later update; for \<^verbatim>\<open>__proto__\<close> the
  assignment of that string is ignored and no property is created. A value is
  therefore a count or \<open>NotANumber\<close>, and \<^verbatim>\<open>count > 1\<close> is false for the latter.
\<close>

datatype count_val = Count nat | NotANumber

definition objectPrototypeMethods :: "string list" where
  "objectPrototypeMethods =
     [''constructor'', ''__defineGetter__'', ''__defineSetter__'', ''hasOwnProperty'',
      ''__lookupGetter__'', ''__lookupSetter__'', ''isPrototypeOf'', ''propertyIsEnumerable'',
      ''toString'', ''valueOf'', ''toLocaleString'']"

definition bump_line :: "(string \<times> count_val) list \<Rightarrow> string \<Rightarrow> (string \<times> count_val) list" where
  "bump_line lineCounts normalized =
     (case map_of lineCounts normalized of
        Some (Count n) \<Rightarrow> AList.update normalized (Count (n + 1)) lineCounts
      | Some NotANumber \<Rightarrow> AList.update normalized NotANumber lineCounts
      | None \<Rightarrow>
          if normalized = ''__proto__'' then lineCounts
          else if normalized \<in> set objectPrototypeMethods
          then AList.update normalized NotANumber lineCounts
          else AList.update normalized (Count 1) lineCounts)"

fun greaterThanOne :: "count_val \<Rightarrow> bool" where
  "greaterThanOne (Count n) = (1 < n)"
| "greaterThanOne NotANumber = False"

definition lineCountsOf :: "string list \<Rightarrow> (string \<times> count_val) list" where
  "lineCountsOf lines = foldl (\<lambda>lineCounts line. bump_line lineCounts (normalize line)) [] lines"

definition detectRepetitivePatterns :: "string \<Rightarrow> rat" where
  "detectRepetitivePatterns content =
     (let lines = filter (\<lambda>line. 0 < length (trim line)) (split_on newline content) in
      if length lines < 5 then 0
      else
        let lineCounts = lineCountsOf lines;
            repeatedLines = length (filter greaterThanOne (map snd lineCounts))
        in jsDivide (of_nat repeatedLines) (of_nat (length lines)))"

section \<open>Data model\<close>

text \<open>
  The value \<^verbatim>\<open>JSON.parse\<close> returns. A number is kept as a rational: the merger only
  copies and tests numbers, it never computes with them.
\<close>

datatype json =
    JNull
  | JBool bool
  | JNum rat
  | JStr string
  | JArr "json list"
  | JObj "(string \<times> json) list"

record AiPatternCounters =
  genericNames :: nat
  perfectFormatting :: nat
  boilerplateCode :: nat
  repetitivePatterns :: nat

record CodeSample =
  sample_file :: string
  sample_extension :: string
  sample_text :: string
  sample_lines :: nat

text \<open>The accumulator \<^verbatim>\<open>stats\<close> of \<^verbatim>\<open>computeMetrics\<close>; \<^verbatim>\<open>fileTypes\<close> in insertion order.\<close>

record Stats =
  totalFiles :: nat
  totalLines :: nat
  commentLines :: nat
  hasReadme :: bool
  hasTests :: bool
  fileTypes :: "(string \<times> nat) list"
  codeSamples :: "CodeSample list"
  aiPatterns :: AiPatternCounters

text \<open>
  What \<^verbatim>\<open>computeMetrics\<close> returns, with the two properties read or set later:
  \<^verbatim>\<open>usedBranch\<close>, set by \<^verbatim>\<open>analyzeRepository\<close>, and \<^verbatim>\<open>highlights\<close>, which
  \<^verbatim>\<open>mergeMetrics\<close> reads and \<^verbatim>\<open>computeMetrics\<close> never sets (\<open>None\<close> is
  \<^verbatim>\<open>undefined\<close>).
\<close>

record RepositoryMetrics = Stats +
  commentsRatio :: rat
  usedBranch :: "string option"
  highlights :: "json option"

text \<open>
  \<^verbatim>\<open>analyzeCodeContent(content, ext, stats)\<close>: the four checks in the order of the source,
  each one an \<^verbatim>\<open>if (...) counter++\<close>.
\<close>

definition analyzeCodeContent :: "string \<Rightarrow> string \<Rightarrow> Stats \<Rightarrow> Stats" where
  "analyzeCodeContent content ext stats =
     (let lines = split_on newline content;
          s1 = (if 5 < genericCount content
                then stats\<lparr>aiPatterns := (aiPatterns stats)
                       \<lparr>genericNames := genericNames (aiPatterns stats) + 1\<rparr>\<rparr>
                else stats);
          indentationConsistency = checkIndentationConsistency lines;
          s2 = (if toDouble (95 / 100) < indentationConsistency
                then s1\<lparr>aiPatterns := (aiPatterns s1)
                       \<lparr>perfectFormatting := perfectFormatting (aiPatterns s1) + 1\<rparr>\<rparr>
                else s1);
          s3 = (if 3 < boilerplateCount content
                then s2\<lparr>aiPatterns := (aiPatterns s2)
                       \<lparr>boilerplateCode := boilerplateCode (aiPatterns s2) + 1\<rparr>\<rparr>
                else s2);
          repetitive = detectRepetitivePatterns content
      in if toDouble (3 / 10) < repetitive
         then s3\<lparr>aiPatterns := (aiPatterns s3)
                \<lparr>repetitivePatterns := repetitivePatterns (aiPatterns s3) + 1\<rparr>\<rparr>
         else s3)"

section \<open>Directory Walker\<close>

text \<open>\<^verbatim>\<open>stats.fileTypes[ext] = (stats.fileTypes[ext] || 0) + 1\<close>.\<close>

definition bumpFileType :: "(string \<times> nat) list \<Rightarrow> string \<Rightarrow> (string \<times> nat) list" where
  "bumpFileType types ext =
     AList.update ext ((case map_of types ext of None \<Rightarrow> 0 | Some n \<Rightarrow> n) + 1) types"

fun joinLines :: "string list \<Rightarrow> string" where
  "joinLines [] = []"
| "joinLines [l] = l"
| "joinLines (l # ls) = l @ newline # joinLines ls"

text \<open>\<^verbatim>\<open>extractCodeSample(content, ext)\<close>; \<open>None\<close> is \<^verbatim>\<open>null\<close>.\<close>

definition extractCodeSample :: "string \<Rightarrow> string \<Rightarrow> string option" where
  "extractCodeSample content ext =
     (let lines = split_on newline content;
          sample = joinLines (take 50 lines);
          sample = (if 2000 < length sample then take 2000 sample @ ''...'' else sample)
      in if 100 < length (trim sample) then Some sample else None)"

text \<open>
  \<^verbatim>\<open>analyzeFile(filePath, stats)\<close>. The content is \<open>None\<close> when \<^verbatim>\<open>fs.readFile\<close>
  throws: the \<^verbatim>\<open>catch\<close> of \<^verbatim>\<open>analyzeFile\<close> logs a warning and the updates made before
  the read stay.
\<close>

definition analyzeFile :: "string \<Rightarrow> string option \<Rightarrow> Stats \<Rightarrow> Stats" where
  "analyzeFile filePath readFile stats =
     (let fileName = basename filePath;
          ext = toLowerCase (extname filePath);
          s1 = (if startsWith (toLowerCase fileName) ''readme''
                then stats\<lparr>hasReadme := True\<rparr> else stats);
          s2 = (if isTestFile fileName filePath then s1\<lparr>hasTests := True\<rparr> else s1);
          s3 = (if ext \<noteq> [] then s2\<lparr>fileTypes := bumpFileType (fileTypes s2) ext\<rparr> else s2)
      in if isTextFile ext then
           (case readFile of
              None \<Rightarrow> s3
            | Some content \<Rightarrow>
                let lines = split_on newline content;
                    s4 = s3\<lparr>totalFiles := totalFiles s3 + 1,
                            totalLines := totalLines s3 + length lines\<rparr>;
                    commentLines' = countCommentLines content ext;
                    s5 = s4\<lparr>commentLines := commentLines s4 + commentLines'\<rparr>;
                    s6 = analyzeCodeContent content ext s5
                in if isMainCodeFile ext \<and> length (codeSamples s6) < 20 then
                     (case extractCodeSample content ext of
                        None \<Rightarrow> s6
                      | Some sample \<Rightarrow>
                          s6\<lparr>codeSamples := codeSamples s6 @
                               [\<lparr>sample_file = fileName, sample_extension = ext,
                                 sample_text = sample, sample_lines = length lines\<rparr>]\<rparr>)
                   else s6)
         else s3)"

text \<open>
  A directory entry as the walker sees it: its name, and what \<^verbatim>\<open>fs.stat\<close>,
  \<^verbatim>\<open>fs.readdir\<close> and \<^verbatim>\<open>fs.readFile\<close> give for it.
  \<^item> \<open>File name content\<close>: a regular file; \<open>content\<close> is \<open>None\<close> when it cannot be read;
  \<^item> \<open>Dir name entries\<close>: a directory and its listing, in the order \<^verbatim>\<open>readdir\<close> returns;
  \<^item> \<open>UnreadableDir name\<close>: a directory whose \<^verbatim>\<open>readdir\<close> throws;
  \<^item> \<open>Other name\<close>: neither a file nor a directory;
  \<^item> \<open>Broken name\<close>: \<^verbatim>\<open>fs.stat\<close> throws (a dangling link).
\<close>

datatype entry =
    File string "string option"
  | Dir string "entry list"
  | UnreadableDir string
  | Other string
  | Broken string

definition ignoredNames :: "string list" where
  "ignoredNames = [''node_modules'', ''dist'', ''build'', ''.git'']"

definition skipped :: "string \<Rightarrow> bool" where
  "skipped item = (startsWith item ''.'' \<or> item \<in> set ignoredNames)"

text \<open>
  \<^verbatim>\<open>path.join(dirPath, item)\<close> for a directory path without a final slash and the name
  of one of its entries, which holds no slash.
\<close>

definition pathJoin :: "string \<Rightarrow> string \<Rightarrow> string" where
  "pathJoin dirPath item = dirPath @ ''/'' @ item"

text \<open>
  The loop of \<^verbatim>\<open>analyzeDirectory(dirPath, stats)\<close> over the listing of \<open>dirPath\<close>.
  \<^verbatim>\<open>fs.stat\<close> is called before the skip test, and an exception leaves the loop for the
  \<^verbatim>\<open>catch\<close> of this call, which only logs: the entries after a \<open>Broken\<close> one are not
  looked at. The recursive call on an unreadable directory returns at once.
\<close>

fun analyzeDirectory :: "string \<Rightarrow> entry list \<Rightarrow> Stats \<Rightarrow> Stats" where
  "analyzeDirectory dirPath [] stats = stats"
| "analyzeDirectory dirPath (Broken item # items) stats = stats"
| "analyzeDirectory dirPath (File item content # items) stats =
     (if skipped item then analyzeDirectory dirPath items stats
      else analyzeDirectory dirPath items (analyzeFile (pathJoin dirPath item) content stats))"
| "analyzeDirectory dirPath (Dir item entries # items) stats =
     (if skipped item then analyzeDirectory dirPath items stats
      else analyzeDirectory dirPath items
             (analyzeDirectory (pathJoin dirPath item) entries stats))"
| "analyzeDirectory dirPath (UnreadableDir item # items) stats =
     analyzeDirectory dirPath items stats"
| "analyzeDirectory dirPath (Other item # items) stats =
     analyzeDirectory dirPath items stats"

definition initialStats :: Stats where
  "initialStats =
     \<lparr>totalFiles = 0, totalLines = 0, commentLines = 0, hasReadme = False, hasTests = False,
      fileTypes = [], codeSamples = [],
      aiPatterns = \<lparr>genericNames = 0, perfectFormatting = 0, boilerplateCode = 0,
                    repetitivePatterns = 0\<rparr>\<rparr>"

text \<open>
  \<^verbatim>\<open>computeMetrics(repoPath)\<close>. The listing of the root is \<open>None\<close> when \<^verbatim>\<open>readdir\<close> of the root
  throws, which \<^verbatim>\<open>analyzeDirectory\<close> catches. Nothing inside the \<^verbatim>\<open>try\<close> block can
  throw, so the function always returns.
\<close>

definition computeMetrics :: "string \<Rightarrow> entry list option \<Rightarrow> RepositoryMetrics" where
  "computeMetrics repoPath listing =
     (let stats = (case listing of
                     None \<Rightarrow> initialStats
                   | Some items \<Rightarrow> analyzeDirectory repoPath items initialStats);
          ratio = (if 0 < totalLines stats
                   then jsDivide (of_nat (commentLines stats)) (of_nat (totalLines stats))
                   else 0)
      in \<lparr>totalFiles = totalFiles stats,
          totalLines = totalLines stats,
          commentLines = commentLines stats,
          hasReadme = hasReadme stats,
          hasTests = hasTests stats,
          fileTypes = fileTypes stats,
          codeSamples = take 10 (codeSamples stats),
          aiPatterns = aiPatterns stats,
          commentsRatio = jsDivide (of_int (mathRound (jsTimes ratio 100))) 100,
          usedBranch = None,
          highlights = None\<rparr>)"

section \<open>Metrics Merger\<close>

text \<open>
  \<^verbatim>\<open>pythonMetrics\<close> is an object: either \<^verbatim>\<open>{ error: message }\<close> built by the analyzer,
  or what \<^verbatim>\<open>JSON.parse\<close> made of a line that starts with \<^verbatim>\<open>{\<close>. It is modelled by the
  list of its properties; a property not in the list reads as \<^verbatim>\<open>undefined\<close>, here
  \<open>None\<close>.
\<close>

type_synonym object = "(string \<times> json) list"

definition getProp :: "object \<Rightarrow> string \<Rightarrow> json option" where
  "getProp obj k = map_of obj k"

text \<open>What \<^verbatim>\<open>if (v)\<close> and \<^verbatim>\<open>v || d\<close> test.\<close>

fun truthy :: "json \<Rightarrow> bool" where
  "truthy JNull = False"
| "truthy (JBool b) = b"
| "truthy (JNum n) = (n \<noteq> 0)"
| "truthy (JStr s) = (s \<noteq> [])"
| "truthy (JArr xs) = True"
| "truthy (JObj kvs) = True"

definition truthyProp :: "object \<Rightarrow> string \<Rightarrow> bool" where
  "truthyProp obj k = (case getProp obj k of None \<Rightarrow> False | Some v \<Rightarrow> truthy v)"

definition orElse :: "json option \<Rightarrow> json \<Rightarrow> json" where
  "orElse v d = (case v of None \<Rightarrow> d | Some x \<Rightarrow> if truthy x then x else d)"

datatype js_error = TypeError string

text \<open>
  The spread \<^verbatim>\<open>...v\<close> in an array literal: the elements of an array, the characters of
  a string, and a \<^verbatim>\<open>TypeError\<close> for a value that is not iterable.
\<close>

fun spread :: "json \<Rightarrow> js_error + json list" where
  "spread (JArr xs) = Inr xs"
| "spread (JStr s) = Inr (map (\<lambda>c. JStr [c]) s)"
| "spread v = Inl (TypeError ''value is not iterable'')"

text \<open>
  \<^verbatim>\<open>arr.indexOf(h)\<close> compares with \<^verbatim>\<open>===\<close>: null, booleans, numbers and strings by
  value, arrays and objects by identity. The arrays and objects of distinct positions
  are distinct objects, so one of them is found at its own position only.
\<close>

fun isReference :: "json \<Rightarrow> bool" where
  "isReference (JArr xs) = True"
| "isReference (JObj kvs) = True"
| "isReference v = False"

definition strictEquals :: "json \<Rightarrow> json \<Rightarrow> bool" where
  "strictEquals a b = (\<not> isReference a \<and> a = b)"

fun indexOfFrom :: "json list \<Rightarrow> json \<Rightarrow> int \<Rightarrow> int" where
  "indexOfFrom [] h i = - 1"
| "indexOfFrom (x # xs) h i = (if strictEquals x h then i else indexOfFrom xs h (i + 1))"

definition indexOf :: "json list \<Rightarrow> json \<Rightarrow> nat \<Rightarrow> int" where
  "indexOf arr h index = (if isReference h then int index else indexOfFrom arr h 0)"

text \<open>\<^verbatim>\<open>arr.filter((highlight, index, arr) => arr.indexOf(highlight) === index)\<close>.\<close>

definition removeDuplicates :: "json list \<Rightarrow> json list" where
  "removeDuplicates arr =
     map snd (filter (\<lambda>(index, highlight). indexOf arr highlight index = int index)
                (enumerate 0 arr))"

record PythonScores =
  comments_score :: json
  naming_score :: json
  tests_score :: json
  examples_score :: json
  python_highlights :: json

text \<open>
  The nested \<^verbatim>\<open>pythonAnalysis\<close>: the error record \<^verbatim>\<open>{ error: pythonMetrics.error }\<close>,
  or the five properties of the second branch.
\<close>

datatype python_analysis = AnalysisError "json option" | AnalysisScores PythonScores

text \<open>
  The merged object. \<^verbatim>\<open>combinedHighlights\<close> is \<open>None\<close> when the object has no such
  property, which is the case on the error path.
\<close>

record CombinedMetrics = RepositoryMetrics +
  pythonAnalysis :: python_analysis
  combinedHighlights :: "json list option"
  combined :: bool

text \<open>
  \<^verbatim>\<open>mergeMetrics(nodeMetrics, pythonMetrics)\<close>. The first branch spreads
  \<^verbatim>\<open>nodeMetrics\<close> into the result; the second copies the ten named properties, so the
  result has no \<^verbatim>\<open>highlights\<close> property of its own. \<open>Inl\<close> is the exception a spread
  of a value that is not iterable throws.
\<close>

definition mergeMetrics :: "RepositoryMetrics \<Rightarrow> object \<Rightarrow> js_error + CombinedMetrics" where
  "mergeMetrics nodeMetrics pythonMetrics =
     (if truthyProp pythonMetrics ''error'' then
        Inr (RepositoryMetrics.extend nodeMetrics
               \<lparr>pythonAnalysis = AnalysisError (getProp pythonMetrics ''error''),
                combinedHighlights = None,
                combined = True\<rparr>)
      else
        (case spread (orElse (highlights nodeMetrics) (JArr [])) of
           Inl e \<Rightarrow> Inl e
         | Inr nodeHighlights \<Rightarrow>
             (case spread (orElse (getProp pythonMetrics ''highlights'') (JArr [])) of
                Inl e \<Rightarrow> Inl e
              | Inr pythonHighlights \<Rightarrow>
                  Inr \<lparr>totalFiles = totalFiles nodeMetrics,
                       totalLines = totalLines nodeMetrics,
                       commentLines = commentLines nodeMetrics,
                       hasReadme = hasReadme nodeMetrics,
                       hasTests = hasTests nodeMetrics,
                       fileTypes = fileTypes nodeMetrics,
                       codeSamples = codeSamples nodeMetrics,
                       aiPatterns = aiPatterns nodeMetrics,
                       commentsRatio = commentsRatio nodeMetrics,
                       usedBranch = usedBranch nodeMetrics,
                       highlights = None,
                       pythonAnalysis = AnalysisScores
                         \<lparr>comments_score = orElse (getProp pythonMetrics ''comments_score'') (JNum 0),
                          naming_score = orElse (getProp pythonMetrics ''naming_score'') (JNum 0),
                          tests_score = orElse (getProp pythonMetrics ''tests_score'') (JNum 0),
                          examples_score = orElse (getProp pythonMetrics ''examples_score'') (JNum 0),
                          python_highlights = orElse (getProp pythonMetrics ''highlights'') (JArr [])\<rparr>,
                       combinedHighlights = Some (removeDuplicates (nodeHighlights @ pythonHighlights)),
                       combined = True\<rparr>)))"

section \<open>Secondary Analyzer Adapter\<close>

text \<open>
  What the spawned process does, as the promise of
  \<^verbatim>\<open>PythonIntegration.analyzeRepository\<close> sees it, that is, the event that settles the
  promise first:
  \<^item> \<open>Closed code stdout stderr\<close>: the \<^verbatim>\<open>close\<close> event, with the exit code (\<open>None\<close> is
    \<^verbatim>\<open>null\<close>, a process ended by a signal) and the two outputs collected so far;
  \<^item> \<open>SpawnError message\<close>: the \<^verbatim>\<open>error\<close> event;
  \<^item> \<open>TimedOut\<close>: the timer of 60000 ms fires before the process closes.
\<close>

datatype process_outcome =
    Closed "int option" string string
  | SpawnError string
  | TimedOut

function showNat :: "nat \<Rightarrow> string" where
  "showNat n =
     (if n < 10 then [char_of (48 + n)] else showNat (n div 10) @ [char_of (48 + n mod 10)])"
  by pat_completeness auto
termination
  by (relation "measure id") auto

definition showCode :: "int option \<Rightarrow> string" where
  "showCode code =
     (case code of
        None \<Rightarrow> ''null''
      | Some c \<Rightarrow> if c < 0 then CHR ''-'' # showNat (nat (- c)) else showNat (nat c))"

text \<open>
  The loop from the last line to the first: the first trimmed line found that starts
  with \<^verbatim>\<open>{\<close> and ends with \<^verbatim>\<open>}\<close>, or the empty string.
\<close>

definition findJsonLine :: "string list \<Rightarrow> string" where
  "findJsonLine lines =
     (case List.find (\<lambda>line. startsWith line ''{'' \<and> endsWith line ''}'') (rev (map trim lines)) of
        None \<Rightarrow> []
      | Some line \<Rightarrow> line)"

text \<open>
  \<^verbatim>\<open>PythonIntegration.analyzeRepository(repoPath)\<close>: \<open>Inl message\<close> is the promise
  rejected with \<^verbatim>\<open>new Error(message)\<close>, \<open>Inr result\<close> the promise resolved.
  \<^verbatim>\<open>JSON.parse\<close> is the parameter \<open>parse\<close>: \<open>Inl\<close> the message of its
  \<^verbatim>\<open>SyntaxError\<close>, \<open>Inr\<close> the object parsed (a text that starts with \<^verbatim>\<open>{\<close> and parses
  is an object).
\<close>

definition pythonAnalyzeRepository ::
  "(string \<Rightarrow> string + object) \<Rightarrow> process_outcome \<Rightarrow> string + object" where
  "pythonAnalyzeRepository parse outcome =
     (case outcome of
        Closed code stdout stderr \<Rightarrow>
          if code \<noteq> Some 0 then
            Inl (''Python analyzer failed with code '' @ showCode code @ '': '' @ stderr)
          else
            let lines = split_on newline (trim stdout);
                jsonLine = findJsonLine lines
            in if jsonLine = [] then
                 Inl (''Failed to parse Python analyzer output: '' @
                      ''No valid JSON found in Python output'')
               else
                 (case parse jsonLine of
                    Inl message \<Rightarrow> Inl (''Failed to parse Python analyzer output: '' @ message)
                  | Inr result \<Rightarrow> Inr result)
      | SpawnError message \<Rightarrow> Inl (''Failed to start Python analyzer: '' @ message)
      | TimedOut \<Rightarrow> Inl ''Python analyzer timeout'')"

section \<open>The analysis run\<close>

text \<open>
  \<^verbatim>\<open>RepoAnalyzer.analyzeRepository\<close> after the clone, which is outside this model and
  gives the branch used: the primary metrics, the secondary analysis with its
  \<^verbatim>\<open>catch\<close>, and the merge. \<open>Inl message\<close> is the error the outer \<^verbatim>\<open>catch\<close> throws.
\<close>

definition errorMessage :: "js_error \<Rightarrow> string" where
  "errorMessage e = (case e of TypeError message \<Rightarrow> message)"

definition analyzeRepository ::
  "(string \<Rightarrow> string + object) \<Rightarrow> string \<Rightarrow> string \<Rightarrow> entry list option \<Rightarrow> process_outcome
     \<Rightarrow> string + CombinedMetrics" where
  "analyzeRepository parse branch tempRepoPath listing outcome =
     (let nodeMetrics = (computeMetrics tempRepoPath listing)\<lparr>usedBranch := Some branch\<rparr>;
          pythonMetrics = (case pythonAnalyzeRepository parse outcome of
                             Inl message \<Rightarrow> [(''error'', JStr message)]
                           | Inr result \<Rightarrow> result)
      in case mergeMetrics nodeMetrics pythonMetrics of
           Inl e \<Rightarrow> Inl (''Failed to analyze repository: '' @ errorMessage e)
         | Inr combinedMetrics \<Rightarrow> Inr combinedMetrics)"

section \<open>Reference notions the properties are stated with\<close>

text \<open>A list without its repetitions, every element kept where it first occurs.\<close>

fun firstOccurrencesFrom :: "'a list \<Rightarrow> 'a list \<Rightarrow> 'a list" where
  "firstOccurrencesFrom seen [] = []"
| "firstOccurrencesFrom seen (x # xs) =
     (if x \<in> set seen then firstOccurrencesFrom seen xs
      else x # firstOccurrencesFrom (x # seen) xs)"

definition firstOccurrences :: "'a list \<Rightarrow> 'a list" where
  "firstOccurrences xs = firstOccurrencesFrom [] xs"

text \<open>
  The highlights a well-formed value has: none (the property is missing or is a value
  \<^verbatim>\<open>||\<close> replaces), or an array of strings.
\<close>

fun isString :: "json \<Rightarrow> bool" where
  "isString (JStr s) = True"
| "isString v = False"

definition highlightList :: "json option \<Rightarrow> json list option" where
  "highlightList v =
     (case v of
        None \<Rightarrow> Some []
      | Some (JArr hs) \<Rightarrow> if list_all isString hs then Some hs else None
      | Some other \<Rightarrow> if truthy other then None else Some [])"

text \<open>
  The ways the secondary analyzer fails. A line is a complete structured record when its
  trimmed form starts with \<^verbatim>\<open>{\<close>, ends with \<^verbatim>\<open>}\<close> and parses. The analyzer has failed
  when the process closes with a code other than 0, when it closes with code 0 and no
  line of its output is a complete record, when it cannot be started, or when the timer
  fires first.
\<close>

definition completeRecord :: "(string \<Rightarrow> string + object) \<Rightarrow> string \<Rightarrow> bool" where
  "completeRecord parse line =
     (startsWith (trim line) ''{'' \<and> endsWith (trim line) ''}'' \<and>
      (case parse (trim line) of Inl message \<Rightarrow> False | Inr result \<Rightarrow> True))"

fun secondaryFailure :: "(string \<Rightarrow> string + object) \<Rightarrow> process_outcome \<Rightarrow> bool" where
  "secondaryFailure parse (Closed code stdout stderr) =
     (code \<noteq> Some 0 \<or>
      list_all (\<lambda>line. \<not> completeRecord parse line) (split_on newline (trim stdout)))"
| "secondaryFailure parse (SpawnError message) = True"
| "secondaryFailure parse TimedOut = True"

text \<open>
  A listing without the entries the walker skips, at every depth. A \<open>Broken\<close> entry
  stays whatever its name: \<^verbatim>\<open>fs.stat\<close> is called on it before the skip test.
\<close>

fun entryName :: "entry \<Rightarrow> string" where
  "entryName (File item content) = item"
| "entryName (Dir item entries) = item"
| "entryName (UnreadableDir item) = item"
| "entryName (Other item) = item"
| "entryName (Broken item) = item"

fun prune :: "entry list \<Rightarrow> entry list" where
  "prune [] = []"
| "prune (Broken item # items) = Broken item # prune items"
| "prune (Dir item entries # items) =
     (if skipped item then prune items else Dir item (prune entries) # prune items)"
| "prune (e # items) = (if skipped (entryName e) then prune items else e # prune items)"

text \<open>
  The two ratios as the specification words them, to be compared with what the code
  computes.
  \<^item> Indentation: among the non-empty lines, those whose leading white space has a length
    divisible by 4, or, counted by tabs, those whose leading white space holds a tab
    character; over the number of non-empty lines, and 1 when there is none.
  \<^item> Repetition: the non-empty lines whose normalized form occurs more than once among
    the normalized non-empty lines, over the number of non-empty lines.
\<close>

definition claimedIndentationRatio :: "string \<Rightarrow> rat" where
  "claimedIndentationRatio content =
     (let ls = nonEmptyLines content in
      if ls = [] then 1
      else of_nat (max (length (filter (\<lambda>line. indentOf line mod 4 = 0) ls))
                       (length (filter (\<lambda>line. CHR 0x09 \<in> set (takeWhile is_space line)) ls)))
           / of_nat (length ls))"

definition claimedRepetitionRatio :: "string \<Rightarrow> rat" where
  "claimedRepetitionRatio content =
     (let forms = map normalize (nonEmptyLines content) in
      of_nat (length (filter (\<lambda>form. 1 < count_list forms form) forms)) / of_nat (length forms))"

text \<open>
  What the code counts for the repetition ratio when no line is the name of a property
  of \<^verbatim>\<open>Object.prototype\<close>: the distinct normalized forms that occur more than once.
\<close>

definition repeatedForms :: "string list \<Rightarrow> nat" where
  "repeatedForms forms = length (filter (\<lambda>form. 1 < count_list forms form) (remdups forms))"

definition prototypeNames :: "string list" where
  "prototypeNames = ''__proto__'' # objectPrototypeMethods"

text \<open>
  The invariant of the loop that fills \<^verbatim>\<open>lineCounts\<close>: after the normalized forms
  \<open>forms\<close>, the object has one property per distinct form, holding the number of its
  occurrences.
\<close>

definition countsInv :: "(string \<times> count_val) list \<Rightarrow> string list \<Rightarrow> bool" where
  "countsInv lc forms =
     (distinct (map fst lc) \<and> set (map fst lc) = set forms \<and>
      (\<forall>k \<in> set forms. map_of lc k = Some (Count (count_list forms k))))"


section \<open>Properties of the number model\<close>

lemma bitlen_rat_bounds:
  assumes "0 < a"
  shows "(2::rat) powi (bitlen a - 1) \<le> of_int a" and "of_int a < (2::rat) powi (bitlen a)"
proof -
  have b: "2 ^ nat (bitlen a - 1) \<le> a \<and> a < 2 ^ nat (bitlen a)"
    using assms by (rule bitlen_bounds)
  have one: "1 \<le> bitlen a"
    using assms bitlen_eq_zero_iff [of a] bitlen_nonneg [of a] by linarith
  have "(of_int (2 ^ nat (bitlen a - 1)) :: rat) \<le> of_int a"
    using b by (simp only: of_int_le_iff)
  then show "(2::rat) powi (bitlen a - 1) \<le> of_int a"
    using one by (simp add: power_int_nonneg_exp)
  have "(of_int a :: rat) < of_int (2 ^ nat (bitlen a))"
    using b by (simp only: of_int_less_iff)
  then show "of_int a < (2::rat) powi (bitlen a)"
    using one by (simp add: power_int_nonneg_exp)
qed

lemma binade_bounds:
  assumes "0 < x"
  shows "2 powi binade x \<le> x" and "x < 2 powi (binade x + 1)"
proof -
  obtain a b where q: "quotient_of x = (a, b)" by (cases "quotient_of x")
  have bpos: "0 < b" using q by (rule quotient_of_denom_pos)
  have x: "x = of_int a / of_int b" using q by (rule quotient_of_div)
  have apos: "0 < a"
    using assms bpos x by (simp add: zero_less_divide_iff)
  let ?d = "bitlen a - bitlen b"
  have bq: "(0::rat) < of_int b" using bpos by simp
  have up: "x < 2 powi (?d + 1)"
  proof -
    have "(2::rat) powi (bitlen a) = 2 powi (?d + 1) * 2 powi (bitlen b - 1)"
      by (simp add: power_int_add [symmetric])
    also have "\<dots> \<le> 2 powi (?d + 1) * of_int b"
      using bitlen_rat_bounds(1) [OF bpos] by (intro mult_left_mono) simp_all
    finally have "of_int a < 2 powi (?d + 1) * (of_int b :: rat)"
      using bitlen_rat_bounds(2) [OF apos] by simp
    then show ?thesis using bq by (simp add: x pos_divide_less_eq)
  qed
  have low: "2 powi (?d - 1) < x"
  proof -
    have "2 powi (?d - 1) * (of_int b :: rat) < 2 powi (?d - 1) * 2 powi (bitlen b)"
      using bitlen_rat_bounds(2) [OF bpos] by (intro mult_strict_left_mono) simp_all
    also have "\<dots> = 2 powi (bitlen a - 1)"
      by (simp add: power_int_add [symmetric])
    also have "\<dots> \<le> of_int a"
      using bitlen_rat_bounds(1) [OF apos] .
    finally show ?thesis using bq by (simp add: x pos_less_divide_eq)
  qed
  show "2 powi binade x \<le> x"
    using low by (auto simp: binade_def q Let_def)
  show "x < 2 powi (binade x + 1)"
    using up by (auto simp: binade_def q Let_def)
qed

lemma roundTiesToEven_near: "\<bar>of_int (roundTiesToEven m) - m\<bar> \<le> 1 / 2"
proof -
  have "of_int \<lfloor>m\<rfloor> \<le> m" "m < of_int \<lfloor>m\<rfloor> + 1" by linarith+
  then show ?thesis
    by (auto simp: roundTiesToEven_def Let_def)
qed

lemma toDouble_zero: "toDouble 0 = 0"
  by (simp add: toDouble_def)

lemma toDouble_error:
  assumes "0 < x"
  shows "\<bar>toDouble x - x\<bar> \<le> x / 2 ^ 53"
proof -
  let ?e = "binade x"
  let ?u = "(2::rat) powi (?e - 52)"
  let ?r = "roundTiesToEven (x / ?u)"
  have upos: "0 < ?u" by simp
  have f: "toDouble x = of_int ?r * ?u"
    using assms by (simp add: toDouble_def Let_def)
  have "\<bar>of_int ?r - x / ?u\<bar> \<le> 1 / 2" by (rule roundTiesToEven_near)
  then have "\<bar>of_int ?r - x / ?u\<bar> * ?u \<le> 1 / 2 * ?u"
    using upos by (intro mult_right_mono) simp_all
  moreover have "\<bar>of_int ?r - x / ?u\<bar> * ?u = \<bar>of_int ?r * ?u - x\<bar>"
  proof -
    have "\<bar>of_int ?r - x / ?u\<bar> * ?u = \<bar>(of_int ?r - x / ?u) * ?u\<bar>"
      using upos by (simp add: abs_mult)
    also have "(of_int ?r - x / ?u) * ?u = of_int ?r * ?u - x"
      using upos by (simp add: left_diff_distrib)
    finally show ?thesis .
  qed
  ultimately have e1: "\<bar>toDouble x - x\<bar> \<le> 1 / 2 * ?u" by (simp add: f)
  have "1 / 2 * ?u = 2 powi ?e / 2 ^ 53"
  proof -
    have "(2::rat) powi (?e - 52 + 52) = 2 powi (?e - 52) * 2 powi 52"
      by (rule power_int_add) simp
    then have "(2::rat) powi ?e = 2 powi (?e - 52) * 2 ^ 52"
      by simp
    then show ?thesis by simp
  qed
  also have "\<dots> \<le> x / 2 ^ 53"
    using binade_bounds(1) [OF assms] by (simp add: divide_right_mono)
  finally show ?thesis using e1 by linarith
qed


lemma toDouble_error_unit:
  assumes "0 \<le> x" and "x \<le> 1"
  shows "\<bar>toDouble x - x\<bar> \<le> 1 / 2 ^ 53"
proof (cases "x = 0")
  case True
  then show ?thesis by (simp add: toDouble_zero)
next
  case False
  then have "0 < x" using assms by simp
  then have "\<bar>toDouble x - x\<bar> \<le> x / 2 ^ 53" by (rule toDouble_error)
  also have "\<dots> \<le> 1 / 2 ^ 53" using assms by (simp add: divide_right_mono)
  finally show ?thesis .
qed

lemma toDouble_compare:
  assumes "0 \<le> a" "a \<le> 1" "0 \<le> b" "b \<le> 1"
    and gap: "a = b \<or> 1 / 2 ^ 52 < \<bar>a - b\<bar>"
  shows "(toDouble a < toDouble b) = (a < b)"
proof (cases "a = b")
  case True
  then show ?thesis by simp
next
  case False
  then have g: "1 / 2 ^ 52 < \<bar>a - b\<bar>" using gap by simp
  have ea: "\<bar>toDouble a - a\<bar> \<le> 1 / 2 ^ 53" using assms(1,2) by (rule toDouble_error_unit)
  have eb: "\<bar>toDouble b - b\<bar> \<le> 1 / 2 ^ 53" using assms(3,4) by (rule toDouble_error_unit)
  have h: "(1::rat) / 2 ^ 52 = 1 / 2 ^ 53 + 1 / 2 ^ 53" by simp
  show ?thesis using g ea eb unfolding h by linarith
qed

lemma ratio_gap:
  fixes p q m n :: nat
  assumes "0 < q" "q \<le> 128" "0 < n" "n < 2 ^ 40"
  shows "(of_nat p / of_nat q :: rat) = of_nat m / of_nat n
         \<or> 1 / 2 ^ 52 < \<bar>(of_nat p / of_nat q :: rat) - of_nat m / of_nat n\<bar>"
proof (cases "(of_nat p / of_nat q :: rat) = of_nat m / of_nat n")
  case True
  then show ?thesis by simp
next
  case False
  let ?N = "int p * int n - int m * int q"
  have qn: "(0::rat) < of_nat q * of_nat n" using assms by simp
  have d: "(of_nat p / of_nat q :: rat) - of_nat m / of_nat n = of_int ?N / (of_nat q * of_nat n)"
    using assms by (simp add: field_simps)
  have "?N \<noteq> 0"
  proof
    assume "?N = 0"
    then have "(of_int ?N :: rat) = 0" by simp
    then have "(of_nat p / of_nat q :: rat) - of_nat m / of_nat n = 0" using d by simp
    then show False using False by simp
  qed
  then have "1 \<le> \<bar>?N\<bar>" by linarith
  then have "(1::rat) \<le> of_int \<bar>?N\<bar>" by (simp only: of_int_1_le_iff)
  then have n1: "(1::rat) \<le> \<bar>of_int ?N\<bar>" by simp
  have "of_nat q * of_nat n < (128::rat) * 2 ^ 40"
  proof -
    have "q * n < 128 * 2 ^ 40"
      using assms by (intro mult_le_less_imp_less) simp_all
    then have "(of_nat (q * n) :: rat) < of_nat (128 * 2 ^ 40)" by (simp only: of_nat_less_iff)
    then show ?thesis by simp
  qed
  then have "(1::rat) / (128 * 2 ^ 40) < 1 / (of_nat q * of_nat n)"
    using qn by (simp add: frac_less2)
  also have "\<dots> \<le> \<bar>of_int ?N\<bar> / (of_nat q * of_nat n)"
    using n1 qn by (simp add: divide_right_mono)
  also have "\<dots> = \<bar>of_int ?N / (of_nat q * of_nat n :: rat)\<bar>"
    using qn by (simp add: abs_divide)
  finally have "(1::rat) / (128 * 2 ^ 40) < \<bar>(of_nat p / of_nat q :: rat) - of_nat m / of_nat n\<bar>"
    using d by simp
  moreover have "(1::rat) / 2 ^ 52 < 1 / (128 * 2 ^ 40)" by simp
  ultimately show ?thesis by linarith
qed


lemma shrink: "0 \<le> z \<Longrightarrow> z / 2 ^ 53 \<le> (z::rat)"
proof -
  assume z: "0 \<le> z"
  have "z / 2 ^ 53 \<le> z / 1"
    using z by (intro divide_left_mono) simp_all
  then show ?thesis by simp
qed

lemma half_gap:
  fixes k :: int and c t :: nat
  assumes "0 < t" and "t < 2 ^ 40"
    and "of_int k + s / 2 \<noteq> 100 * (of_nat c / of_nat t :: rat)" and "s = 1 \<or> s = - 1"
  shows "1 / 2 ^ 41 < \<bar>of_int k + s / 2 - 100 * (of_nat c / of_nat t :: rat)\<bar>"
proof -
  obtain j :: int where j: "s = of_int j" "j = 1 \<or> j = - 1"
    using assms(4) by (metis of_int_1 of_int_minus)
  let ?N = "(2 * k + j) * int t - 200 * int c"
  have tpos: "(0::rat) < 2 * of_nat t" using assms by simp
  have d: "of_int k + s / 2 - 100 * (of_nat c / of_nat t :: rat) = of_int ?N / (2 * of_nat t)"
    using assms(1) by (simp add: j field_simps)
  have "?N \<noteq> 0"
  proof
    assume "?N = 0"
    then have "(of_int ?N :: rat) = 0" by simp
    then have "of_int k + s / 2 - 100 * (of_nat c / of_nat t :: rat) = 0" using d by simp
    then show False using assms(3) by simp
  qed
  then have "1 \<le> \<bar>?N\<bar>" by linarith
  then have "(1::rat) \<le> of_int \<bar>?N\<bar>" by (simp only: of_int_1_le_iff)
  then have n1: "(1::rat) \<le> \<bar>of_int ?N\<bar>" by simp
  have "(of_nat t :: rat) < of_nat (2 ^ 40)" using assms(2) by (simp only: of_nat_less_iff)
  then have "2 * (of_nat t :: rat) < 2 ^ 41" by simp
  then have "(1::rat) / 2 ^ 41 < 1 / (2 * of_nat t)"
    using tpos by (simp add: frac_less2)
  also have "\<dots> \<le> \<bar>of_int ?N\<bar> / (2 * of_nat t)"
    using n1 tpos by (simp add: divide_right_mono)
  also have "\<dots> = \<bar>of_int ?N / (2 * of_nat t :: rat)\<bar>"
    using tpos by (simp add: abs_divide)
  finally show ?thesis using d by simp
qed

lemma round_ratio:
  fixes c t :: nat
  assumes "c \<le> t" and "0 < t" and "t < 2 ^ 40"
  shows "\<bar>of_int (mathRound (toDouble (toDouble (of_nat c / of_nat t) * 100))) - 100 * (of_nat c / of_nat t :: rat)\<bar>
           \<le> 1 / 2"
proof -
  define q :: rat where "q = of_nat c / of_nat t"
  define u :: rat where "u = 1 / 2 ^ 53"
  define g :: rat where "g = 1 / 2 ^ 41"
  define y where "y = toDouble (toDouble q * 100)"
  define k where "k = mathRound y"
  have u: "0 < u" "201 * u < g" "u \<le> 1 / 100"
    by (simp_all add: u_def g_def)
  have q0: "0 \<le> q" by (simp add: q_def)
  have q1: "q \<le> 1" using assms by (simp add: q_def)
  have e1: "\<bar>toDouble q - q\<bar> \<le> u"
    unfolding u_def using q0 q1 by (rule toDouble_error_unit)
  have p0: "0 \<le> toDouble q * 100"
  proof (cases "q = 0")
    case True
    have "toDouble q = 0" unfolding True by (rule toDouble_zero)
    then show ?thesis by (simp only: mult_zero_left order_refl)
  next
    case False
    then have "0 < q" using q0 by (simp only: less_le) simp
    then have "\<bar>toDouble q - q\<bar> \<le> q / 2 ^ 53" by (rule toDouble_error)
    moreover have "q / 2 ^ 53 \<le> q" using q0 by (rule shrink)
    ultimately have "0 \<le> toDouble q" by linarith
    then show ?thesis by simp
  qed
  have p1: "toDouble q * 100 \<le> 101" using e1 q1 u by linarith
  have e2: "\<bar>y - toDouble q * 100\<bar> \<le> 101 * u"
  proof (cases "toDouble q * 100 = 0")
    case True
    have "toDouble (toDouble q * 100) = 0" unfolding True by (rule toDouble_zero)
    then show ?thesis unfolding y_def True using u by simp
  next
    case False
    then have "0 < toDouble q * 100" using p0 by (simp only: less_le) simp
    then have "\<bar>y - toDouble q * 100\<bar> \<le> toDouble q * 100 / 2 ^ 53"
      unfolding y_def by (rule toDouble_error)
    also have "\<dots> \<le> 101 / 2 ^ 53" using p1 by (simp add: divide_right_mono)
    also have "\<dots> = 101 * u" by (simp add: u_def)
    finally show ?thesis .
  qed
  have near: "\<bar>y - 100 * q\<bar> \<le> 201 * u" using e1 e2 by linarith
  have k1: "of_int k \<le> y + 1 / 2" and k2: "y + 1 / 2 < of_int k + 1"
    unfolding k_def mathRound_def by linarith+
  have "\<bar>of_int k - 100 * q\<bar> \<le> 1 / 2"
  proof (rule ccontr)
    assume "\<not> \<bar>of_int k - 100 * q\<bar> \<le> 1 / 2"
    then consider "1 / 2 < of_int k - 100 * q" | "1 / 2 < 100 * q - of_int k" by linarith
    then show False
    proof cases
      case 1
      then have ne: "of_int k + (- 1) / 2 \<noteq> 100 * (of_nat c / of_nat t :: rat)"
        unfolding q_def by linarith
      have "1 / 2 ^ 41 < \<bar>of_int k + (- 1) / 2 - 100 * (of_nat c / of_nat t :: rat)\<bar>"
        using assms(2,3) ne by (rule half_gap) simp
      then have "g < \<bar>of_int k + (- 1) / 2 - 100 * q\<bar>" by (simp add: g_def q_def)
      then show False using 1 k1 near u by linarith
    next
      case 2
      then have ne: "of_int k + 1 / 2 \<noteq> 100 * (of_nat c / of_nat t :: rat)"
        unfolding q_def by linarith
      have "1 / 2 ^ 41 < \<bar>of_int k + 1 / 2 - 100 * (of_nat c / of_nat t :: rat)\<bar>"
        using assms(2,3) ne by (rule half_gap) simp
      then have "g < \<bar>of_int k + 1 / 2 - 100 * q\<bar>" by (simp add: g_def q_def)
      then show False using 2 k2 near u by linarith
    qed
  qed
  then show ?thesis by (simp add: k_def y_def q_def)
qed

section \<open>Properties of the Comment Counter\<close>

lemma comment_step_outside:
  "ext \<notin> set commentFamilies \<Longrightarrow> comment_step ext n line = n"
  by (simp add: comment_step_def commentFamilies_def Let_def)

lemma foldl_comment_step_outside:
  "ext \<notin> set commentFamilies \<Longrightarrow> foldl (comment_step ext) n ls = n"
  by (induction ls arbitrary: n) (simp_all add: comment_step_outside)

lemma comment_step_le:
  "comment_step ext n line \<le> n + (if trim line \<noteq> [] then 1 else 0)"
  by (simp add: comment_step_def Let_def)

lemma foldl_comment_step_le:
  "foldl (comment_step ext) n ls \<le> n + length (filter (\<lambda>line. trim line \<noteq> []) ls)"
proof (induction ls arbitrary: n)
  case Nil
  then show ?case by simp
next
  case (Cons l ls)
  have "foldl (comment_step ext) (comment_step ext n l) ls
          \<le> comment_step ext n l + length (filter (\<lambda>line. trim line \<noteq> []) ls)"
    by (rule Cons.IH)
  also have "\<dots> \<le> n + (if trim l \<noteq> [] then 1 else 0) + length (filter (\<lambda>line. trim line \<noteq> []) ls)"
    using comment_step_le [of ext n l] by simp
  finally show ?case by (simp split: if_splits)
qed

lemma analyzeCodeContent_counts:
  "totalLines (analyzeCodeContent content ext stats) = totalLines stats"
  "commentLines (analyzeCodeContent content ext stats) = commentLines stats"
  "totalFiles (analyzeCodeContent content ext stats) = totalFiles stats"
  "hasReadme (analyzeCodeContent content ext stats) = hasReadme stats"
  "hasTests (analyzeCodeContent content ext stats) = hasTests stats"
  "fileTypes (analyzeCodeContent content ext stats) = fileTypes stats"
  "codeSamples (analyzeCodeContent content ext stats) = codeSamples stats"
  by (simp_all add: analyzeCodeContent_def Let_def)

text \<open>
  Claim C10. For an extension outside the comment-prefix families the Comment Counter
  returns 0, whatever the content; for every input the count is at most the number of
  non-empty lines; and a readable text file with such an extension adds its lines to
  \<open>totalLines\<close> and nothing to \<open>commentLines\<close>.
\<close>

theorem comment_counter_families:
  "(ext \<notin> set commentFamilies \<longrightarrow> countCommentLines content ext = 0)
   \<and> countCommentLines content ext \<le> length (nonEmptyLines content)
   \<and> (isTextFile (toLowerCase (extname filePath))
        \<and> toLowerCase (extname filePath) \<notin> set commentFamilies \<longrightarrow>
      commentLines (analyzeFile filePath (Some content) stats) = commentLines stats
      \<and> totalLines (analyzeFile filePath (Some content) stats)
          = totalLines stats + length (split_on newline content))"
proof (intro conjI impI)
  assume "ext \<notin> set commentFamilies"
  then show "countCommentLines content ext = 0"
    by (simp add: countCommentLines_def foldl_comment_step_outside)
next
  show "countCommentLines content ext \<le> length (nonEmptyLines content)"
    using foldl_comment_step_le [of ext 0 "split_on newline content"]
    by (simp add: countCommentLines_def nonEmptyLines_def)
next
  assume a: "isTextFile (toLowerCase (extname filePath))
        \<and> toLowerCase (extname filePath) \<notin> set commentFamilies"
  then have z: "countCommentLines content (toLowerCase (extname filePath)) = 0"
    by (simp add: countCommentLines_def foldl_comment_step_outside)
  show "commentLines (analyzeFile filePath (Some content) stats) = commentLines stats"
    using a z by (simp add: analyzeFile_def Let_def analyzeCodeContent_counts split: option.splits)
  show "totalLines (analyzeFile filePath (Some content) stats)
          = totalLines stats + length (split_on newline content)"
    using a by (simp add: analyzeFile_def Let_def analyzeCodeContent_counts split: option.splits)
qed

text \<open>The same at a Markdown file of two lines, the first starting with \<^verbatim>\<open>#\<close>.\<close>

theorem comment_counter_families_witness:
  "''.md'' \<notin> set commentFamilies
   \<and> countCommentLines ''# Title\<newline>text'' ''.md'' = 0
   \<and> countCommentLines ''# Title\<newline>text'' ''.md'' \<le> length (nonEmptyLines ''# Title\<newline>text'')
   \<and> isTextFile (toLowerCase (extname ''/repo/notes.MD''))
   \<and> toLowerCase (extname ''/repo/notes.MD'') \<notin> set commentFamilies
   \<and> commentLines (analyzeFile ''/repo/notes.MD'' (Some ''# Title\<newline>text'') initialStats) = 0
   \<and> totalLines (analyzeFile ''/repo/notes.MD'' (Some ''# Title\<newline>text'') initialStats) = 2"
proof -
  have e: "toLowerCase (extname ''/repo/notes.MD'') = ''.md''" by code_simp
  have m: "''.md'' \<notin> set commentFamilies" by code_simp
  have t: "isTextFile ''.md''" by code_simp
  have l: "length (split_on newline ''# Title\<newline>text'') = 2" by code_simp
  have i: "commentLines initialStats = 0" "totalLines initialStats = 0"
    by (simp_all add: initialStats_def)
  show ?thesis
    using comment_counter_families [of "''.md''" "''# Title\<newline>text''" "''/repo/notes.MD''" initialStats]
      e m t l i by simp
qed

section \<open>Properties of the Pattern Detector\<close>

lemma analyzeCodeContent_aiPatterns:
  "aiPatterns (analyzeCodeContent content ext stats) =
     \<lparr>genericNames = genericNames (aiPatterns stats) + of_bool (5 < genericCount content),
      perfectFormatting = perfectFormatting (aiPatterns stats)
        + of_bool (toDouble (95 / 100) < checkIndentationConsistency (split_on newline content)),
      boilerplateCode = boilerplateCode (aiPatterns stats)
        + of_bool (3 < boilerplateCount content),
      repetitivePatterns = repetitivePatterns (aiPatterns stats)
        + of_bool (toDouble (3 / 10) < detectRepetitivePatterns content)\<rparr>"
  by (simp add: analyzeCodeContent_def Let_def)

lemma analyzeFile_aiPatterns:
  "aiPatterns (analyzeFile filePath readFile stats) =
     (case readFile of
        Some content \<Rightarrow>
          if isTextFile (toLowerCase (extname filePath))
          then aiPatterns (analyzeCodeContent content (toLowerCase (extname filePath)) stats)
          else aiPatterns stats
      | None \<Rightarrow> aiPatterns stats)"
  by (simp add: analyzeFile_def Let_def analyzeCodeContent_aiPatterns
      if_distrib [of aiPatterns] option.case_distrib [of aiPatterns]
      split: option.splits split del: if_split cong: if_cong option.case_cong)


lemma analyzeFile_counter_le:
  "genericNames (aiPatterns (analyzeFile filePath readFile stats))
       \<le> genericNames (aiPatterns stats) + 1"
  "perfectFormatting (aiPatterns (analyzeFile filePath readFile stats))
       \<le> perfectFormatting (aiPatterns stats) + 1"
  "boilerplateCode (aiPatterns (analyzeFile filePath readFile stats))
       \<le> boilerplateCode (aiPatterns stats) + 1"
  "repetitivePatterns (aiPatterns (analyzeFile filePath readFile stats))
       \<le> repetitivePatterns (aiPatterns stats) + 1"
  by (cases readFile; cases "isTextFile (toLowerCase (extname filePath))";
      simp add: analyzeFile_aiPatterns analyzeCodeContent_aiPatterns)+

text \<open>
  Claim C5. Each of the four checks of \<^verbatim>\<open>analyzeCodeContent\<close> adds 1 to its counter when
  its signal trips and nothing otherwise, and \<^verbatim>\<open>analyzeFile\<close> runs the checks at most
  once, so that one file raises a counter by at most 1. For a text file whose three
  generic-name expressions match more than 5 times in total, \<open>genericNames\<close> goes up by
  exactly 1, however many matches there are.
\<close>

theorem signal_increments_once:
  "genericNames (aiPatterns (analyzeCodeContent content ext stats))
     = genericNames (aiPatterns stats) + (if 5 < genericCount content then 1 else 0)
   \<and> perfectFormatting (aiPatterns (analyzeCodeContent content ext stats))
     = perfectFormatting (aiPatterns stats)
       + (if toDouble (95 / 100) < checkIndentationConsistency (split_on newline content) then 1 else 0)
   \<and> boilerplateCode (aiPatterns (analyzeCodeContent content ext stats))
     = boilerplateCode (aiPatterns stats) + (if 3 < boilerplateCount content then 1 else 0)
   \<and> repetitivePatterns (aiPatterns (analyzeCodeContent content ext stats))
     = repetitivePatterns (aiPatterns stats)
       + (if toDouble (3 / 10) < detectRepetitivePatterns content then 1 else 0)
   \<and> genericNames (aiPatterns (analyzeFile filePath readFile stats))
       \<le> genericNames (aiPatterns stats) + 1
   \<and> perfectFormatting (aiPatterns (analyzeFile filePath readFile stats))
       \<le> perfectFormatting (aiPatterns stats) + 1
   \<and> boilerplateCode (aiPatterns (analyzeFile filePath readFile stats))
       \<le> boilerplateCode (aiPatterns stats) + 1
   \<and> repetitivePatterns (aiPatterns (analyzeFile filePath readFile stats))
       \<le> repetitivePatterns (aiPatterns stats) + 1
   \<and> (isTextFile (toLowerCase (extname filePath)) \<and> 5 < genericCount content \<longrightarrow>
        genericNames (aiPatterns (analyzeFile filePath (Some content) stats))
          = genericNames (aiPatterns stats) + 1)"
proof (intro conjI impI)
  show "genericNames (aiPatterns (analyzeCodeContent content ext stats))
     = genericNames (aiPatterns stats) + (if 5 < genericCount content then 1 else 0)"
    by (simp add: analyzeCodeContent_aiPatterns)
  show "perfectFormatting (aiPatterns (analyzeCodeContent content ext stats))
     = perfectFormatting (aiPatterns stats)
       + (if toDouble (95 / 100) < checkIndentationConsistency (split_on newline content) then 1 else 0)"
    by (simp add: analyzeCodeContent_aiPatterns)
  show "boilerplateCode (aiPatterns (analyzeCodeContent content ext stats))
     = boilerplateCode (aiPatterns stats) + (if 3 < boilerplateCount content then 1 else 0)"
    by (simp add: analyzeCodeContent_aiPatterns)
  show "repetitivePatterns (aiPatterns (analyzeCodeContent content ext stats))
     = repetitivePatterns (aiPatterns stats)
       + (if toDouble (3 / 10) < detectRepetitivePatterns content then 1 else 0)"
    by (simp add: analyzeCodeContent_aiPatterns)
  show "genericNames (aiPatterns (analyzeFile filePath readFile stats))
       \<le> genericNames (aiPatterns stats) + 1"
    by (rule analyzeFile_counter_le)
  show "perfectFormatting (aiPatterns (analyzeFile filePath readFile stats))
       \<le> perfectFormatting (aiPatterns stats) + 1"
    by (rule analyzeFile_counter_le)
  show "boilerplateCode (aiPatterns (analyzeFile filePath readFile stats))
       \<le> boilerplateCode (aiPatterns stats) + 1"
    by (rule analyzeFile_counter_le)
  show "repetitivePatterns (aiPatterns (analyzeFile filePath readFile stats))
       \<le> repetitivePatterns (aiPatterns stats) + 1"
    by (rule analyzeFile_counter_le)
next
  assume "isTextFile (toLowerCase (extname filePath)) \<and> 5 < genericCount content"
  then show "genericNames (aiPatterns (analyzeFile filePath (Some content) stats))
          = genericNames (aiPatterns stats) + 1"
    by (simp add: analyzeFile_aiPatterns analyzeCodeContent_aiPatterns)
qed

text \<open>Two files, with 6 and with 11 matches: the counter goes from 0 to 1 for both.\<close>

theorem signal_increments_once_witness:
  "genericCount ''result value temp run do handle'' = 6
   \<and> genericCount ''result value temp tempVar tempData run do handle process execute perform'' = 11
   \<and> isTextFile (toLowerCase (extname ''/tmp/repo/a.js''))
   \<and> genericNames (aiPatterns (analyzeFile ''/tmp/repo/a.js''
         (Some ''result value temp run do handle'') initialStats)) = 1
   \<and> genericNames (aiPatterns (analyzeFile ''/tmp/repo/a.js''
         (Some ''result value temp tempVar tempData run do handle process execute perform'')
         initialStats)) = 1"
proof -
  have six: "genericCount ''result value temp run do handle'' = 6"
    by code_simp
  have eleven:
    "genericCount ''result value temp tempVar tempData run do handle process execute perform'' = 11"
    by code_simp
  have t: "isTextFile (toLowerCase (extname ''/tmp/repo/a.js''))"
    by code_simp
  have z: "genericNames (aiPatterns initialStats) = 0"
    by (simp add: initialStats_def)
  show ?thesis
    using six eleven t z
      signal_increments_once [where filePath = "''/tmp/repo/a.js''" and stats = initialStats
        and content = "''result value temp run do handle''"]
      signal_increments_once [where filePath = "''/tmp/repo/a.js''" and stats = initialStats
        and content = "''result value temp tempVar tempData run do handle process execute perform''"]
    by simp
qed

lemma indentationsOf_lines:
  "indentationsOf (split_on newline content) = map indentOf (nonEmptyLines content)"
  by (simp add: indentationsOf_def nonEmptyLines_def)

lemma checkIndentationConsistency_lines:
  "checkIndentationConsistency (split_on newline content) =
     (if nonEmptyLines content = [] then 1
      else jsDivide
             (of_nat (max (length (filter (\<lambda>line. indentOf line mod 4 = 0) (nonEmptyLines content)))
                          (length (filter (\<lambda>line. 0 < indentOf line) (nonEmptyLines content)))))
             (of_nat (length (nonEmptyLines content))))"
  unfolding checkIndentationConsistency_def indentationsOf_lines
  by (simp add: Let_def filter_map comp_def)

lemma ratio_95_exact:
  "0 < n \<Longrightarrow> ((95::rat) / 100 < of_nat m / of_nat n) = (95 * n < 100 * m)"
proof -
  assume "0 < n"
  then have "((95::rat) / 100 < of_nat m / of_nat n) = ((95::rat) * of_nat n < 100 * of_nat m)"
    by (simp add: field_simps)
  also have "\<dots> = ((of_nat (95 * n) :: rat) < of_nat (100 * m))"
    by simp
  also have "\<dots> = (95 * n < 100 * m)"
    by (simp only: of_nat_less_iff)
  finally show ?thesis .
qed

lemma ratio_3_exact:
  "0 < n \<Longrightarrow> ((3::rat) / 10 < of_nat m / of_nat n) = (3 * n < 10 * m)"
proof -
  assume "0 < n"
  then have "((3::rat) / 10 < of_nat m / of_nat n) = ((3::rat) * of_nat n < 10 * of_nat m)"
    by (simp add: field_simps)
  also have "\<dots> = ((of_nat (3 * n) :: rat) < of_nat (10 * m))"
    by simp
  also have "\<dots> = (3 * n < 10 * m)"
    by (simp only: of_nat_less_iff)
  finally show ?thesis .
qed

text \<open>
  A count over a count below \<open>2 ^ 40\<close> is compared with 0.95 or with 0.3 in doubles as it
  is in exact arithmetic: two distinct ratios of that size lie further apart than the
  rounding can move them.
\<close>

lemma threshold_compare:
  fixes p q m n :: nat
  assumes "0 < q" "q \<le> 128" "p \<le> q" "0 < n" "n < 2 ^ 40" "m \<le> n"
  shows "(toDouble (of_nat p / of_nat q) < jsDivide (of_nat m) (of_nat n))
           = ((of_nat p / of_nat q :: rat) < of_nat m / of_nat n)"
  unfolding jsDivide_def
proof (rule toDouble_compare)
  show "(0::rat) \<le> of_nat p / of_nat q" by simp
  show "(of_nat p / of_nat q :: rat) \<le> 1" using assms by simp
  show "(0::rat) \<le> of_nat m / of_nat n" by simp
  show "(of_nat m / of_nat n :: rat) \<le> 1" using assms by simp
  show "(of_nat p / of_nat q :: rat) = of_nat m / of_nat n
         \<or> 1 / 2 ^ 52 < \<bar>(of_nat p / of_nat q :: rat) - of_nat m / of_nat n\<bar>"
    using assms(1,2,4,5) by (rule ratio_gap)
qed

lemma ratio_95:
  assumes "0 < n" "n < 2 ^ 40" "m \<le> n"
  shows "(toDouble (95 / 100) < jsDivide (of_nat m) (of_nat n)) = (95 * n < 100 * m)"
proof -
  have "(toDouble (of_nat 95 / of_nat 100) < jsDivide (of_nat m) (of_nat n))
      = ((of_nat 95 / of_nat 100 :: rat) < of_nat m / of_nat n)"
    using assms by (intro threshold_compare) simp_all
  then have "(toDouble (95 / 100) < jsDivide (of_nat m) (of_nat n))
      = ((95 :: rat) / 100 < of_nat m / of_nat n)"
    by simp
  then show ?thesis using ratio_95_exact [OF assms(1), of m] by (simp only:)
qed

lemma ratio_3:
  assumes "0 < n" "n < 2 ^ 40" "m \<le> n"
  shows "(toDouble (3 / 10) < jsDivide (of_nat m) (of_nat n)) = (3 * n < 10 * m)"
proof -
  have "(toDouble (of_nat 3 / of_nat 10) < jsDivide (of_nat m) (of_nat n))
      = ((of_nat 3 / of_nat 10 :: rat) < of_nat m / of_nat n)"
    using assms by (intro threshold_compare) simp_all
  then have "(toDouble (3 / 10) < jsDivide (of_nat m) (of_nat n))
      = ((3 :: rat) / 10 < of_nat m / of_nat n)"
    by simp
  then show ?thesis using ratio_3_exact [OF assms(1), of m] by (simp only:)
qed

lemma thresholds_in_unit:
  "toDouble (95 / 100) < 1" "\<not> toDouble (3 / 10) < 0"
  by code_simp+

text \<open>
  Claim C6, as amended. For a content of fewer than \<open>2 ^ 40\<close> non-empty lines (a
  JavaScript string cannot hold more), the perfectFormatting signal trips exactly when
  the content has no non-empty line, or the larger of two counts exceeds 0.95 of the
  number of non-empty lines: the lines whose leading white space has a length divisible
  by 4, and the lines whose leading white space is not empty (the check the source
  calls \<^verbatim>\<open>tabs\<close>, which looks at the length only and not at tab characters).
\<close>

theorem perfect_formatting_trips:
  assumes "length (nonEmptyLines content) < 2 ^ 40"
  shows "(perfectFormatting (aiPatterns (analyzeCodeContent content ext stats))
            = perfectFormatting (aiPatterns stats) + 1)
         = (nonEmptyLines content = []
            \<or> 95 * length (nonEmptyLines content)
                < 100 * max (length (filter (\<lambda>line. indentOf line mod 4 = 0) (nonEmptyLines content)))
                            (length (filter (\<lambda>line. 0 < indentOf line) (nonEmptyLines content))))"
proof -
  let ?n = "length (nonEmptyLines content)"
  let ?m = "max (length (filter (\<lambda>line. indentOf line mod 4 = 0) (nonEmptyLines content)))
                (length (filter (\<lambda>line. 0 < indentOf line) (nonEmptyLines content)))"
  have trip: "(perfectFormatting (aiPatterns (analyzeCodeContent content ext stats))
      = perfectFormatting (aiPatterns stats) + 1)
      = (toDouble (95 / 100) < checkIndentationConsistency (split_on newline content))"
    by (simp add: analyzeCodeContent_aiPatterns)
  show ?thesis
  proof (cases "nonEmptyLines content = []")
    case True
    then have "checkIndentationConsistency (split_on newline content) = 1"
      by (simp add: checkIndentationConsistency_lines)
    then show ?thesis using True trip thresholds_in_unit(1) by (simp only: simp_thms)
  next
    case False
    then have pos: "0 < ?n" by simp
    have le: "?m \<le> ?n" by simp
    have "checkIndentationConsistency (split_on newline content)
        = jsDivide (of_nat ?m) (of_nat ?n)"
      using False by (simp add: checkIndentationConsistency_lines)
    then have "(toDouble (95 / 100) < checkIndentationConsistency (split_on newline content))
        = (95 * ?n < 100 * ?m)"
      using ratio_95 [OF pos assms le] by (simp only:)
    then show ?thesis using False trip by (simp only: simp_thms)
  qed
qed

text \<open>
  Claim C6 as stated fails: in a content of two lines indented by two spaces no leading
  white space has a length divisible by 4 and none holds a tab, so the ratio of the
  claim is 0, and the signal trips.
\<close>

theorem perfect_formatting_counterexample:
  "perfectFormatting (aiPatterns (analyzeCodeContent ''  a\<newline>  b'' ''.js'' initialStats))
     = perfectFormatting (aiPatterns initialStats) + 1
   \<and> \<not> 95 / 100 < claimedIndentationRatio ''  a\<newline>  b''"
  by code_simp
lemma countsInv_empty: "countsInv [] []"
  by (simp add: countsInv_def)

lemma countsInv_absent:
  assumes "countsInv lc forms" and "k \<notin> set forms"
  shows "map_of lc k = None"
proof -
  have "k \<notin> fst ` set lc" using assms by (simp add: countsInv_def)
  then show ?thesis by (simp add: map_of_eq_None_iff)
qed

lemma countsInv_step:
  assumes inv: "countsInv lc forms" and safe: "k \<notin> set prototypeNames"
  shows "countsInv (bump_line lc k) (forms @ [k])"
proof (cases "k \<in> set forms")
  case True
  then have m: "map_of lc k = Some (Count (count_list forms k))"
    using inv by (simp add: countsInv_def)
  then have b: "bump_line lc k = AList.update k (Count (count_list forms k + 1)) lc"
    by (simp add: bump_line_def)
  have keys: "fst ` set (AList.update k (Count (count_list forms k + 1)) lc) = set forms"
    using inv True by (auto simp: AList.dom_update countsInv_def)
  have d: "distinct (map fst (AList.update k (Count (count_list forms k + 1)) lc))"
    using inv by (simp add: AList.distinct_update countsInv_def)
  have v: "\<forall>j \<in> set (forms @ [k]).
             map_of (AList.update k (Count (count_list forms k + 1)) lc) j
               = Some (Count (count_list (forms @ [k]) j))"
    using inv by (auto simp: AList.update_conv' countsInv_def)
  show ?thesis
    unfolding b countsInv_def using keys d v True by auto
next
  case False
  then have m: "map_of lc k = None"
    using inv by (rule countsInv_absent [rotated])
  have nk: "k \<noteq> ''__proto__''" and nm: "k \<notin> set objectPrototypeMethods"
    using safe by (simp_all add: prototypeNames_def)
  have b: "bump_line lc k = AList.update k (Count 1) lc"
    using m nk nm by (simp add: bump_line_def)
  have keys: "fst ` set (AList.update k (Count 1) lc) = set (forms @ [k])"
    using inv by (auto simp: AList.dom_update countsInv_def)
  have d: "distinct (map fst (AList.update k (Count 1) lc))"
    using inv by (simp add: AList.distinct_update countsInv_def)
  have v: "\<forall>j \<in> set (forms @ [k]).
             map_of (AList.update k (Count 1) lc) j = Some (Count (count_list (forms @ [k]) j))"
    using inv False by (auto simp: AList.update_conv' countsInv_def)
  show ?thesis
    unfolding b countsInv_def using keys d v by auto
qed

lemma countsInv_foldl:
  "\<forall>k \<in> set forms. k \<notin> set prototypeNames \<Longrightarrow> countsInv (foldl bump_line [] forms) forms"
proof (induction forms rule: rev_induct)
  case Nil
  show ?case by (simp add: countsInv_empty)
next
  case (snoc k forms)
  then have "countsInv (foldl bump_line [] forms) forms" and "k \<notin> set prototypeNames"
    by simp_all
  then show ?case by (simp add: countsInv_step)
qed

lemma lineCountsOf_forms:
  "lineCountsOf lines = foldl bump_line [] (map normalize lines)"
  by (simp add: lineCountsOf_def foldl_map)

lemma snd_via_map_of:
  assumes "distinct (map fst lc)"
  shows "map snd lc = map (\<lambda>k. the (map_of lc k)) (map fst lc)"
proof -
  have "\<And>p. p \<in> set lc \<Longrightarrow> snd p = the (map_of lc (fst p))"
  proof -
    fix p assume "p \<in> set lc"
    then have "(fst p, snd p) \<in> set lc" by simp
    then have "map_of lc (fst p) = Some (snd p)"
      using assms by (rule map_of_is_SomeI [rotated])
    then show "snd p = the (map_of lc (fst p))" by simp
  qed
  then have "map snd lc = map (\<lambda>p. the (map_of lc (fst p))) lc"
    by (intro map_cong refl)
  then show ?thesis by (simp only: map_map comp_def)
qed

lemma countsInv_repeated:
  assumes "countsInv lc forms"
  shows "length (filter greaterThanOne (map snd lc)) = repeatedForms forms"
proof -
  have d: "distinct (map fst lc)" and s: "set (map fst lc) = set forms"
    and v: "\<And>k. k \<in> set forms \<Longrightarrow> map_of lc k = Some (Count (count_list forms k))"
    using assms by (simp_all add: countsInv_def)
  have "length (filter greaterThanOne (map snd lc))
      = length (filter greaterThanOne (map (\<lambda>k. the (map_of lc k)) (map fst lc)))"
    by (subst snd_via_map_of [OF d]) (rule refl)
  also have "\<dots> = length (filter (\<lambda>k. greaterThanOne (the (map_of lc k))) (map fst lc))"
    by (simp add: filter_map comp_def)
  also have "\<dots> = length (filter (\<lambda>k. 1 < count_list forms k) (map fst lc))"
    using s v by (intro arg_cong [where f = length] filter_cong) auto
  also have "\<dots> = card ({k. 1 < count_list forms k} \<inter> set (map fst lc))"
    using d by (rule distinct_length_filter)
  also have "\<dots> = card ({k. 1 < count_list forms k} \<inter> set (remdups forms))"
    using s by simp
  also have "\<dots> = length (filter (\<lambda>k. 1 < count_list forms k) (remdups forms))"
    by (rule distinct_length_filter [symmetric]) simp
  finally show ?thesis by (simp add: repeatedForms_def)
qed

lemma detectRepetitivePatterns_safe:
  assumes "\<forall>form \<in> set (map normalize (nonEmptyLines content)). form \<notin> set prototypeNames"
  shows "detectRepetitivePatterns content =
     (if length (nonEmptyLines content) < 5 then 0
      else jsDivide (of_nat (repeatedForms (map normalize (nonEmptyLines content))))
             (of_nat (length (nonEmptyLines content))))"
proof -
  have f: "filter (\<lambda>line. 0 < length (trim line)) (split_on newline content) = nonEmptyLines content"
    by (simp add: nonEmptyLines_def)
  have "countsInv (lineCountsOf (nonEmptyLines content)) (map normalize (nonEmptyLines content))"
    unfolding lineCountsOf_forms using assms by (rule countsInv_foldl)
  then have "length (filter greaterThanOne (map snd (lineCountsOf (nonEmptyLines content))))
      = repeatedForms (map normalize (nonEmptyLines content))"
    by (rule countsInv_repeated)
  then show ?thesis
    unfolding detectRepetitivePatterns_def f by (simp add: Let_def)
qed

text \<open>
  Claim C4, as amended. For a content of fewer than \<open>2 ^ 40\<close> non-empty lines, none of
  whose normalized forms is the name of a property of \<^verbatim>\<open>Object.prototype\<close>, the
  repetitivePatterns signal trips exactly when there are at least 5 non-empty lines and
  the number of distinct normalized forms that occur more than once exceeds 0.3 of the
  number of non-empty lines; with fewer than 5 non-empty lines the counter stays as it
  was.
\<close>

theorem repetitive_patterns_trips:
  assumes "\<forall>form \<in> set (map normalize (nonEmptyLines content)). form \<notin> set prototypeNames"
    and "length (nonEmptyLines content) < 2 ^ 40"
  shows "((repetitivePatterns (aiPatterns (analyzeCodeContent content ext stats))
            = repetitivePatterns (aiPatterns stats) + 1)
          = (5 \<le> length (nonEmptyLines content)
             \<and> 3 * length (nonEmptyLines content)
                 < 10 * repeatedForms (map normalize (nonEmptyLines content))))
         \<and> (length (nonEmptyLines content) < 5 \<longrightarrow>
              repetitivePatterns (aiPatterns (analyzeCodeContent content ext stats))
                = repetitivePatterns (aiPatterns stats))"
proof -
  let ?n = "length (nonEmptyLines content)"
  let ?r = "repeatedForms (map normalize (nonEmptyLines content))"
  have trip: "(repetitivePatterns (aiPatterns (analyzeCodeContent content ext stats))
            = repetitivePatterns (aiPatterns stats) + 1)
      = (toDouble (3 / 10) < detectRepetitivePatterns content)"
    by (simp add: analyzeCodeContent_aiPatterns)
  have same: "\<not> toDouble (3 / 10) < detectRepetitivePatterns content \<Longrightarrow>
      repetitivePatterns (aiPatterns (analyzeCodeContent content ext stats))
        = repetitivePatterns (aiPatterns stats)"
    by (simp add: analyzeCodeContent_aiPatterns)
  show ?thesis
  proof (cases "?n < 5")
    case True
    then have "detectRepetitivePatterns content = 0"
      by (simp add: detectRepetitivePatterns_safe [OF assms(1)])
    then have "\<not> toDouble (3 / 10) < detectRepetitivePatterns content"
      using thresholds_in_unit(2) by simp
    then show ?thesis using True trip same by simp
  next
    case False
    then have pos: "0 < ?n" by (cases "nonEmptyLines content") simp_all
    have "?r \<le> length (remdups (map normalize (nonEmptyLines content)))"
      unfolding repeatedForms_def by (rule length_filter_le)
    also have "\<dots> \<le> length (map normalize (nonEmptyLines content))"
      by (rule length_remdups_leq)
    finally have le: "?r \<le> ?n" by simp
    have "detectRepetitivePatterns content = jsDivide (of_nat ?r) (of_nat ?n)"
      using False by (simp add: detectRepetitivePatterns_safe [OF assms(1)])
    then have "(toDouble (3 / 10) < detectRepetitivePatterns content) = (3 * ?n < 10 * ?r)"
      using ratio_3 [OF pos assms(2) le] by (simp only:)
    then show ?thesis using False trip by simp
  qed
qed

text \<open>
  Claim C4 as stated fails: of five lines \<^verbatim>\<open>a b a c d\<close>, two have a form that occurs
  more than once, a ratio of 0.4, and the signal does not trip; the code counts the
  form \<^verbatim>\<open>a\<close> once, a ratio of 0.2.
\<close>

theorem repetitive_patterns_counterexample:
  "5 \<le> length (nonEmptyLines ''a\<newline>b\<newline>a\<newline>c\<newline>d'')
   \<and> 3 / 10 < claimedRepetitionRatio ''a\<newline>b\<newline>a\<newline>c\<newline>d''
   \<and> repetitivePatterns (aiPatterns (analyzeCodeContent ''a\<newline>b\<newline>a\<newline>c\<newline>d'' ''.js'' initialStats))
       = repetitivePatterns (aiPatterns initialStats)"
  by code_simp

text \<open>
  Five lines with two repeated forms, one of them up to white space: the signal trips.
\<close>

theorem repetitive_patterns_trips_witness:
  "map normalize (nonEmptyLines ''x = 1\<newline>x  =  1\<newline>  y = 2\<newline>y = 2\<newline>z'')
     = [''x = 1'', ''x = 1'', ''y = 2'', ''y = 2'', ''z'']
   \<and> length (nonEmptyLines ''x = 1\<newline>x  =  1\<newline>  y = 2\<newline>y = 2\<newline>z'') = 5
   \<and> repeatedForms (map normalize (nonEmptyLines ''x = 1\<newline>x  =  1\<newline>  y = 2\<newline>y = 2\<newline>z'')) = 2
   \<and> repetitivePatterns (aiPatterns
         (analyzeCodeContent ''x = 1\<newline>x  =  1\<newline>  y = 2\<newline>y = 2\<newline>z'' ''.js'' initialStats)) = 1"
proof -
  let ?c = "''x = 1\<newline>x  =  1\<newline>  y = 2\<newline>y = 2\<newline>z''"
  have s: "\<forall>form \<in> set (map normalize (nonEmptyLines ?c)). form \<notin> set prototypeNames"
    by code_simp
  have n: "length (nonEmptyLines ?c) = 5" by code_simp
  have r: "repeatedForms (map normalize (nonEmptyLines ?c)) = 2" by code_simp
  have z: "repetitivePatterns (aiPatterns initialStats) = 0" by (simp add: initialStats_def)
  have f: "map normalize (nonEmptyLines ?c) = [''x = 1'', ''x = 1'', ''y = 2'', ''y = 2'', ''z'']"
    by code_simp
  have b: "length (nonEmptyLines ?c) < 2 ^ 40"
    unfolding n by simp
  show ?thesis
    using f n r z repetitive_patterns_trips [OF s b, of "''.js''" initialStats] by simp
qed

text \<open>
  The amended statement at that content, and at the empty content, which trips.
\<close>

theorem perfect_formatting_trips_witness:
  "length (nonEmptyLines ''  a\<newline>  b'') = 2
   \<and> length (filter (\<lambda>line. indentOf line mod 4 = 0) (nonEmptyLines ''  a\<newline>  b'')) = 0
   \<and> length (filter (\<lambda>line. 0 < indentOf line) (nonEmptyLines ''  a\<newline>  b'')) = 2
   \<and> perfectFormatting (aiPatterns (analyzeCodeContent ''  a\<newline>  b'' ''.js'' initialStats)) = 1
   \<and> nonEmptyLines '''' = []
   \<and> perfectFormatting (aiPatterns (analyzeCodeContent '''' ''.js'' initialStats)) = 1"
proof -
  let ?c = "''  a\<newline>  b''"
  have n: "length (nonEmptyLines ?c) = 2" by code_simp
  have a: "length (filter (\<lambda>line. indentOf line mod 4 = 0) (nonEmptyLines ?c)) = 0" by code_simp
  have b: "length (filter (\<lambda>line. 0 < indentOf line) (nonEmptyLines ?c)) = 2" by code_simp
  have e: "nonEmptyLines '''' = []" by code_simp
  have z: "perfectFormatting (aiPatterns initialStats) = 0" by (simp add: initialStats_def)
  have s1: "length (nonEmptyLines ?c) < 2 ^ 40"
    unfolding n by simp
  have s2: "length (nonEmptyLines '''') < 2 ^ 40"
    unfolding e by simp
  show ?thesis
    using n a b e z perfect_formatting_trips [OF s1, of "''.js''" initialStats]
      perfect_formatting_trips [OF s2, of "''.js''" initialStats]
    by simp
qed

section \<open>Properties of the Directory Walker\<close>

lemma analyzeDirectory_prune:
  "analyzeDirectory dirPath (prune items) stats = analyzeDirectory dirPath items stats"
  by (induction dirPath items stats rule: analyzeDirectory.induct) simp_all

text \<open>
  Claim C9. The walker gives the same result on a listing and on the listing without
  the entries it skips, at every depth: a directory named \<^verbatim>\<open>node_modules\<close>,
  \<^verbatim>\<open>dist\<close>, \<^verbatim>\<open>build\<close> or \<^verbatim>\<open>.git\<close>, and any file or directory whose name starts with a
  dot, is passed over with the statistics unchanged, so nothing below it is read. (The
  walker does call \<^verbatim>\<open>fs.stat\<close> on every entry before the skip test; an entry on which
  that call throws is neither a file nor a directory and is kept by \<open>prune\<close>.)
\<close>

theorem walker_skips_ignored:
  "analyzeDirectory dirPath (prune items) stats = analyzeDirectory dirPath items stats
   \<and> computeMetrics repoPath (Some (prune items)) = computeMetrics repoPath (Some items)
   \<and> (skipped item \<longrightarrow>
        analyzeDirectory dirPath (Dir item entries # items) stats
          = analyzeDirectory dirPath items stats
        \<and> analyzeDirectory dirPath (File item content # items) stats
          = analyzeDirectory dirPath items stats)
   \<and> skipped ''node_modules'' \<and> skipped ''dist'' \<and> skipped ''build'' \<and> skipped ''.git''
   \<and> (startsWith item ''.'' \<longrightarrow> skipped item)"
  by (simp add: analyzeDirectory_prune computeMetrics_def skipped_def ignoredNames_def)

text \<open>A repository with a \<^verbatim>\<open>.git\<close> directory, dependencies, a dot file and a build output.\<close>

theorem walker_skips_ignored_witness:
  "prune [Dir ''.git'' [File ''config.js'' (Some ''// x'')],
          Dir ''node_modules'' [Dir ''lib'' [File ''index.js'' (Some ''// y'')]],
          File ''.eslintrc.js'' (Some ''// z''),
          Dir ''src'' [Dir ''dist'' [File ''out.js'' (Some ''// w'')],
                       File ''main.js'' (Some ''// m\<newline>run()'')]]
     = [Dir ''src'' [File ''main.js'' (Some ''// m\<newline>run()'')]]
   \<and> computeMetrics ''/tmp/repo''
        (Some [Dir ''.git'' [File ''config.js'' (Some ''// x'')],
               Dir ''node_modules'' [Dir ''lib'' [File ''index.js'' (Some ''// y'')]],
               File ''.eslintrc.js'' (Some ''// z''),
               Dir ''src'' [Dir ''dist'' [File ''out.js'' (Some ''// w'')],
                            File ''main.js'' (Some ''// m\<newline>run()'')]])
     = computeMetrics ''/tmp/repo'' (Some [Dir ''src'' [File ''main.js'' (Some ''// m\<newline>run()'')]])
   \<and> skipped ''.eslintrc.js''
   \<and> analyzeDirectory ''/tmp/repo'' [File ''.eslintrc.js'' (Some ''// z'')] initialStats
     = initialStats"
proof -
  let ?tree = "[Dir ''.git'' [File ''config.js'' (Some ''// x'')],
          Dir ''node_modules'' [Dir ''lib'' [File ''index.js'' (Some ''// y'')]],
          File ''.eslintrc.js'' (Some ''// z''),
          Dir ''src'' [Dir ''dist'' [File ''out.js'' (Some ''// w'')],
                       File ''main.js'' (Some ''// m\<newline>run()'')]]"
  have p: "prune ?tree = [Dir ''src'' [File ''main.js'' (Some ''// m\<newline>run()'')]]"
    by (simp add: skipped_def startsWith_def ignoredNames_def)
  have s: "skipped ''.eslintrc.js''"
    by (simp add: skipped_def startsWith_def)
  show ?thesis
    using p s
      walker_skips_ignored [where repoPath = "''/tmp/repo''" and items = ?tree]
      walker_skips_ignored [where dirPath = "''/tmp/repo''" and items = "[]"
        and item = "''.eslintrc.js''" and content = "Some ''// z''" and stats = initialStats]
    by simp
qed

lemma analyzeFile_lines:
  "totalLines (analyzeFile filePath readFile stats) =
     totalLines stats +
     (case readFile of
        Some content \<Rightarrow>
          if isTextFile (toLowerCase (extname filePath))
          then length (split_on newline content) else 0
      | None \<Rightarrow> 0)"
  "commentLines (analyzeFile filePath readFile stats) =
     commentLines stats +
     (case readFile of
        Some content \<Rightarrow>
          if isTextFile (toLowerCase (extname filePath))
          then countCommentLines content (toLowerCase (extname filePath)) else 0
      | None \<Rightarrow> 0)"
  by (simp_all add: analyzeFile_def Let_def analyzeCodeContent_counts
      if_distrib [of totalLines] option.case_distrib [of totalLines]
      if_distrib [of commentLines] option.case_distrib [of commentLines]
      split: option.splits split del: if_split cong: if_cong option.case_cong)
     auto

lemma countCommentLines_le_lines:
  "countCommentLines content ext \<le> length (split_on newline content)"
proof -
  have "countCommentLines content ext
      \<le> length (filter (\<lambda>line. trim line \<noteq> []) (split_on newline content))"
    using foldl_comment_step_le [of ext 0 "split_on newline content"]
    by (simp add: countCommentLines_def)
  also have "\<dots> \<le> length (split_on newline content)"
    by (rule length_filter_le)
  finally show ?thesis .
qed

lemma analyzeFile_comment_le:
  assumes "commentLines stats \<le> totalLines stats"
  shows "commentLines (analyzeFile filePath readFile stats)
           \<le> totalLines (analyzeFile filePath readFile stats)"
  using assms countCommentLines_le_lines
  by (cases readFile) (simp_all add: analyzeFile_lines add_mono)

lemma analyzeDirectory_comment_le:
  "commentLines stats \<le> totalLines stats \<Longrightarrow>
   commentLines (analyzeDirectory dirPath items stats)
     \<le> totalLines (analyzeDirectory dirPath items stats)"
  by (induction dirPath items stats rule: analyzeDirectory.induct)
     (simp_all add: analyzeFile_comment_le)

lemma computeMetrics_comment_le:
  "commentLines (computeMetrics repoPath listing) \<le> totalLines (computeMetrics repoPath listing)"
proof -
  have "commentLines initialStats \<le> totalLines initialStats"
    by (simp add: initialStats_def)
  then show ?thesis
    by (cases listing) (simp_all add: computeMetrics_def Let_def analyzeDirectory_comment_le)
qed

lemma mathRound_zero: "mathRound 0 = 0"
  unfolding mathRound_def by (rule floor_unique) simp_all

text \<open>
  Claim C1. The \<open>commentsRatio\<close> that \<^verbatim>\<open>computeMetrics\<close> returns is 0 when
  \<open>totalLines\<close> is 0. Otherwise, for fewer than \<open>2 ^ 40\<close> lines, it is the double of a
  number of hundredths that differs from \<open>commentLines / totalLines\<close> by at most half a
  hundredth: the quotient rounded to 2 decimal places. (When the quotient lies midway
  between two hundredths either of them may come out: the double of 0.145 times 100 is
  below 14.5, and \<^verbatim>\<open>Math.round\<close> gives 14.)
\<close>

theorem commentsRatio_rounded:
  "(totalLines (computeMetrics repoPath listing) = 0 \<longrightarrow>
      commentsRatio (computeMetrics repoPath listing) = 0)
   \<and> (0 < totalLines (computeMetrics repoPath listing)
       \<and> totalLines (computeMetrics repoPath listing) < 2 ^ 40 \<longrightarrow>
      (\<exists>k :: int.
         commentsRatio (computeMetrics repoPath listing) = toDouble (of_int k / 100)
         \<and> \<bar>of_int k / 100
              - of_nat (commentLines (computeMetrics repoPath listing))
                / of_nat (totalLines (computeMetrics repoPath listing))\<bar> \<le> (1 :: rat) / 200))"
proof (intro conjI impI)
  assume "totalLines (computeMetrics repoPath listing) = 0"
  then show "commentsRatio (computeMetrics repoPath listing) = 0"
    by (simp add: computeMetrics_def Let_def jsTimes_def jsDivide_def toDouble_zero mathRound_zero)
next
  let ?m = "computeMetrics repoPath listing"
  let ?c = "commentLines ?m"
  let ?t = "totalLines ?m"
  let ?q = "(of_nat ?c / of_nat ?t) :: rat"
  let ?k = "mathRound (toDouble (toDouble ?q * 100))"
  assume b: "0 < ?t \<and> ?t < 2 ^ 40"
  then have r: "commentsRatio ?m = toDouble (of_int ?k / 100)"
    by (simp add: computeMetrics_def Let_def jsTimes_def jsDivide_def)
  have "\<bar>of_int ?k - 100 * ?q\<bar> \<le> 1 / 2"
    using computeMetrics_comment_le b by (intro round_ratio) simp_all
  then have "\<bar>of_int ?k / 100 - ?q\<bar> \<le> 1 / 200"
    by (simp add: abs_le_iff field_simps)
  with r show "\<exists>k :: int. commentsRatio ?m = toDouble (of_int k / 100)
      \<and> \<bar>of_int k / 100 - ?q\<bar> \<le> (1 :: rat) / 200"
    by blast
qed


text \<open>
  One comment line in three lines gives 0.33 and an empty repository 0; 100 comment
  lines in 1000 lines give 0.1, and 29 in 200 give 0.14.
\<close>

theorem commentsRatio_rounded_witness:
  "totalLines (computeMetrics ''/tmp/repo'' (Some [File ''a.js'' (Some ''// one\<newline>x = 1\<newline>y = 2'')])) = 3
   \<and> commentLines (computeMetrics ''/tmp/repo'' (Some [File ''a.js'' (Some ''// one\<newline>x = 1\<newline>y = 2'')])) = 1
   \<and> commentsRatio (computeMetrics ''/tmp/repo'' (Some [File ''a.js'' (Some ''// one\<newline>x = 1\<newline>y = 2'')]))
       = toDouble (33 / 100)
   \<and> (\<exists>k :: int.
         commentsRatio (computeMetrics ''/tmp/repo'' (Some [File ''a.js'' (Some ''// one\<newline>x = 1\<newline>y = 2'')]))
           = toDouble (of_int k / 100)
         \<and> \<bar>of_int k / 100 - (1 :: rat) / 3\<bar> \<le> 1 / 200)
   \<and> totalLines (computeMetrics ''/tmp/repo'' (Some [])) = 0
   \<and> commentsRatio (computeMetrics ''/tmp/repo'' (Some [])) = 0
   \<and> jsDivide (of_int (mathRound (jsTimes (jsDivide 100 1000) 100))) 100 = toDouble (10 / 100)
   \<and> jsDivide (of_int (mathRound (jsTimes (jsDivide 29 200) 100))) 100 = toDouble (14 / 100)"
proof -
  let ?t = "Some [File ''a.js'' (Some ''// one\<newline>x = 1\<newline>y = 2'')]"
  have m: "totalLines (computeMetrics ''/tmp/repo'' ?t) = 3"
    "commentLines (computeMetrics ''/tmp/repo'' ?t) = 1"
    "commentsRatio (computeMetrics ''/tmp/repo'' ?t) = toDouble (33 / 100)"
    by code_simp+
  have e: "totalLines (computeMetrics ''/tmp/repo'' (Some [])) = 0"
    by (simp add: computeMetrics_def initialStats_def)
  have a: "jsDivide (of_int (mathRound (jsTimes (jsDivide 100 1000) 100))) 100 = toDouble (10 / 100)"
    "jsDivide (of_int (mathRound (jsTimes (jsDivide 29 200) 100))) 100 = toDouble (14 / 100)"
    by code_simp+
  have b: "(3::nat) < 2 ^ 40" by simp
  show ?thesis
    using commentsRatio_rounded [of "''/tmp/repo''" ?t]
      commentsRatio_rounded [of "''/tmp/repo''" "Some []"] e a b
    unfolding m by simp
qed

section \<open>Properties of the Metrics Merger\<close>

lemma firstOccurrencesFrom_set_cong:
  "set seen = set seen' \<Longrightarrow> firstOccurrencesFrom seen xs = firstOccurrencesFrom seen' xs"
proof (induction xs arbitrary: seen seen')
  case Nil
  show ?case by simp
next
  case (Cons x xs)
  have a: "firstOccurrencesFrom seen xs = firstOccurrencesFrom seen' xs"
    using Cons.prems by (rule Cons.IH)
  have "set (x # seen) = set (x # seen')"
    using Cons.prems by simp
  then have b: "firstOccurrencesFrom (x # seen) xs = firstOccurrencesFrom (x # seen') xs"
    by (rule Cons.IH)
  show ?case
    using Cons.prems by (simp add: a b)
qed

lemma set_firstOccurrencesFrom:
  "set (firstOccurrencesFrom seen xs) = set xs - set seen"
  by (induction xs arbitrary: seen) auto

lemma distinct_firstOccurrencesFrom:
  "distinct (firstOccurrencesFrom seen xs)"
  by (induction xs arbitrary: seen) (auto simp: set_firstOccurrencesFrom)

lemma indexOfFrom_absent:
  "\<forall>x \<in> set xs. \<not> strictEquals x h \<Longrightarrow> indexOfFrom (xs @ ys) h k = indexOfFrom ys h (k + int (length xs))"
  by (induction xs arbitrary: k) (auto simp: algebra_simps)

lemma indexOfFrom_present:
  "0 \<le> k \<Longrightarrow> h \<in> set xs \<Longrightarrow> \<not> isReference h \<Longrightarrow> indexOfFrom (xs @ ys) h k < k + int (length xs)"
proof (induction xs arbitrary: k)
  case Nil
  then show ?case by simp
next
  case (Cons x xs)
  show ?case
  proof (cases "strictEquals x h")
    case True
    then show ?thesis by simp
  next
    case False
    with Cons.prems have "h \<in> set xs" by (auto simp: strictEquals_def)
    with Cons.IH [of "k + 1"] Cons.prems False show ?thesis by simp
  qed
qed

lemma strictEquals_strings:
  "isString x \<Longrightarrow> strictEquals x h = (x = h)"
  by (cases x) (auto simp: strictEquals_def)

lemma isString_not_reference: "isString x \<Longrightarrow> \<not> isReference x"
  by (cases x) auto

lemma removeDuplicates_from:
  "list_all isString pre \<Longrightarrow> list_all isString xs \<Longrightarrow>
   map snd (filter (\<lambda>(index, highlight). indexOf (pre @ xs) highlight index = int index)
              (enumerate (length pre) xs))
     = firstOccurrencesFrom pre xs"
proof (induction xs arbitrary: pre)
  case Nil
  then show ?case by simp
next
  case (Cons x xs)
  have sx: "isString x" and sxs: "list_all isString xs" using Cons.prems by simp_all
  have nr: "\<not> isReference x" using sx by (rule isString_not_reference)
  have pre': "list_all isString (pre @ [x])" using Cons.prems by simp
  have ih: "map snd (filter (\<lambda>(index, highlight). indexOf (pre @ x # xs) highlight index = int index)
              (enumerate (Suc (length pre)) xs)) = firstOccurrencesFrom (pre @ [x]) xs"
    using Cons.IH [OF pre' sxs] by simp
  let ?keep = "\<lambda>(index, highlight). indexOf (pre @ x # xs) highlight index = int index"
  have unfold: "map snd (filter ?keep (enumerate (length pre) (x # xs)))
      = (if indexOf (pre @ x # xs) x (length pre) = int (length pre) then [x] else [])
        @ map snd (filter ?keep (enumerate (Suc (length pre)) xs))"
    by simp
  show ?case
  proof (cases "x \<in> set pre")
    case True
    have "indexOfFrom (pre @ x # xs) x 0 < 0 + int (length pre)"
      using True nr by (intro indexOfFrom_present) simp_all
    then have drop: "indexOf (pre @ x # xs) x (length pre) \<noteq> int (length pre)"
      using nr by (simp add: indexOf_def)
    have "firstOccurrencesFrom (pre @ [x]) xs = firstOccurrencesFrom pre xs"
      using True by (intro firstOccurrencesFrom_set_cong) auto
    then have "map snd (filter ?keep (enumerate (length pre) (x # xs))) = firstOccurrencesFrom pre xs"
      unfolding unfold ih using drop by simp
    then show ?thesis using True by simp
  next
    case False
    have "\<forall>y \<in> set pre. \<not> strictEquals y x"
      using False Cons.prems(1) by (auto simp: list_all_iff strictEquals_strings)
    then have "indexOfFrom (pre @ x # xs) x 0 = indexOfFrom (x # xs) x (0 + int (length pre))"
      by (rule indexOfFrom_absent)
    then have keep: "indexOf (pre @ x # xs) x (length pre) = int (length pre)"
      using nr sx by (simp add: indexOf_def strictEquals_strings)
    have "firstOccurrencesFrom (pre @ [x]) xs = firstOccurrencesFrom (x # pre) xs"
      by (intro firstOccurrencesFrom_set_cong) auto
    then have "map snd (filter ?keep (enumerate (length pre) (x # xs)))
        = x # firstOccurrencesFrom (x # pre) xs"
      unfolding unfold ih using keep by simp
    then show ?thesis using False by simp
  qed
qed

lemma removeDuplicates_strings:
  "list_all isString xs \<Longrightarrow> removeDuplicates xs = firstOccurrences xs"
  using removeDuplicates_from [of "[]" xs]
  by (simp add: removeDuplicates_def firstOccurrences_def)

lemma spread_highlightList:
  "highlightList v = Some hs \<Longrightarrow> spread (orElse v (JArr [])) = Inr hs \<and> list_all isString hs"
  by (cases v; cases "the v")
     (auto simp: highlightList_def orElse_def split: if_splits)

lemma orElse_missing: "orElse None d = d"
  by (simp add: orElse_def)

lemma orElse_truthy: "truthy v \<Longrightarrow> orElse (Some v) d = v"
  by (simp add: orElse_def)


text \<open>
  Claim C8. When the secondary metrics carry no error marker and the highlights of both
  sides are well formed (missing, or arrays of strings), the merger returns a result:
  the ten properties of the primary metrics are copied as they are; a sub-score that is
  missing is 0 and one that is present and counts as true is copied; and
  \<open>combinedHighlights\<close> is the primary highlights followed by the secondary ones with
  every string kept at its first occurrence only, so it has no duplicate and the same
  elements.
\<close>

theorem merge_scores_and_highlights:
  assumes noError: "\<not> truthyProp pythonMetrics ''error''"
    and nodeH: "highlightList (highlights nodeMetrics) = Some nodeHighlights"
    and pythonH: "highlightList (getProp pythonMetrics ''highlights'') = Some pythonHighlights"
  shows "\<exists>c scores. mergeMetrics nodeMetrics pythonMetrics = Inr c
           \<and> totalFiles c = totalFiles nodeMetrics
           \<and> totalLines c = totalLines nodeMetrics
           \<and> commentLines c = commentLines nodeMetrics
           \<and> commentsRatio c = commentsRatio nodeMetrics
           \<and> hasReadme c = hasReadme nodeMetrics
           \<and> hasTests c = hasTests nodeMetrics
           \<and> fileTypes c = fileTypes nodeMetrics
           \<and> usedBranch c = usedBranch nodeMetrics
           \<and> codeSamples c = codeSamples nodeMetrics
           \<and> aiPatterns c = aiPatterns nodeMetrics
           \<and> pythonAnalysis c = AnalysisScores scores
           \<and> (getProp pythonMetrics ''comments_score'' = None \<longrightarrow> comments_score scores = JNum 0)
           \<and> (getProp pythonMetrics ''naming_score'' = None \<longrightarrow> naming_score scores = JNum 0)
           \<and> (getProp pythonMetrics ''tests_score'' = None \<longrightarrow> tests_score scores = JNum 0)
           \<and> (getProp pythonMetrics ''examples_score'' = None \<longrightarrow> examples_score scores = JNum 0)
           \<and> (\<forall>v. getProp pythonMetrics ''comments_score'' = Some v \<and> truthy v
                  \<longrightarrow> comments_score scores = v)
           \<and> (\<forall>v. getProp pythonMetrics ''naming_score'' = Some v \<and> truthy v
                  \<longrightarrow> naming_score scores = v)
           \<and> (\<forall>v. getProp pythonMetrics ''tests_score'' = Some v \<and> truthy v
                  \<longrightarrow> tests_score scores = v)
           \<and> (\<forall>v. getProp pythonMetrics ''examples_score'' = Some v \<and> truthy v
                  \<longrightarrow> examples_score scores = v)
           \<and> combinedHighlights c = Some (firstOccurrences (nodeHighlights @ pythonHighlights))
           \<and> distinct (firstOccurrences (nodeHighlights @ pythonHighlights))
           \<and> set (firstOccurrences (nodeHighlights @ pythonHighlights))
               = set (nodeHighlights @ pythonHighlights)
           \<and> combined c = True"
proof -
  have n: "spread (orElse (highlights nodeMetrics) (JArr [])) = Inr nodeHighlights"
    and ns: "list_all isString nodeHighlights"
    using spread_highlightList [OF nodeH] by simp_all
  have p: "spread (orElse (getProp pythonMetrics ''highlights'') (JArr [])) = Inr pythonHighlights"
    and ps: "list_all isString pythonHighlights"
    using spread_highlightList [OF pythonH] by simp_all
  have d: "removeDuplicates (nodeHighlights @ pythonHighlights)
             = firstOccurrences (nodeHighlights @ pythonHighlights)"
    using ns ps by (intro removeDuplicates_strings) simp
  have s: "set (firstOccurrences (nodeHighlights @ pythonHighlights))
             = set (nodeHighlights @ pythonHighlights)"
    by (simp add: firstOccurrences_def set_firstOccurrencesFrom)
  have t: "distinct (firstOccurrences (nodeHighlights @ pythonHighlights))"
    by (simp add: firstOccurrences_def distinct_firstOccurrencesFrom)
  show ?thesis
    using noError s t by (simp add: mergeMetrics_def n p d orElse_missing orElse_truthy)
qed


text \<open>A secondary record with one sub-score and a repeated highlight.\<close>

theorem merge_scores_and_highlights_witness:
  "\<not> truthyProp [(''comments_score'', JNum 7),
                   (''highlights'', JArr [JStr ''docs'', JStr ''tests'', JStr ''docs''])] ''error''
   \<and> highlightList (highlights (computeMetrics ''/tmp/repo'' (Some []))) = Some []
   \<and> highlightList (getProp [(''comments_score'', JNum 7),
                   (''highlights'', JArr [JStr ''docs'', JStr ''tests'', JStr ''docs''])] ''highlights'')
       = Some [JStr ''docs'', JStr ''tests'', JStr ''docs'']
   \<and> (\<exists>c scores.
         mergeMetrics (computeMetrics ''/tmp/repo'' (Some []))
           [(''comments_score'', JNum 7),
            (''highlights'', JArr [JStr ''docs'', JStr ''tests'', JStr ''docs''])] = Inr c
         \<and> pythonAnalysis c = AnalysisScores scores
         \<and> comments_score scores = JNum 7
         \<and> naming_score scores = JNum 0
         \<and> combinedHighlights c = Some [JStr ''docs'', JStr ''tests'']
         \<and> combined c = True)"
proof -
  let ?py = "[(''comments_score'', JNum 7),
              (''highlights'', JArr [JStr ''docs'', JStr ''tests'', JStr ''docs''])]"
  let ?node = "computeMetrics ''/tmp/repo'' (Some [])"
  have e: "\<not> truthyProp ?py ''error''"
    by (simp add: truthyProp_def getProp_def)
  have n: "highlightList (highlights ?node) = Some []"
    by (simp add: computeMetrics_def highlightList_def)
  have p: "highlightList (getProp ?py ''highlights'') = Some [JStr ''docs'', JStr ''tests'', JStr ''docs'']"
    by (simp add: getProp_def highlightList_def)
  have f: "firstOccurrences ([] @ [JStr ''docs'', JStr ''tests'', JStr ''docs''])
             = [JStr ''docs'', JStr ''tests'']"
    by (simp add: firstOccurrences_def)
  have c: "getProp ?py ''comments_score'' = Some (JNum 7)" "truthy (JNum 7)"
    "getProp ?py ''naming_score'' = None"
    by (simp_all add: getProp_def)
  from merge_scores_and_highlights [OF e n p]
  obtain c scores where
    "mergeMetrics ?node ?py = Inr c" "pythonAnalysis c = AnalysisScores scores"
    "comments_score scores = JNum 7" "naming_score scores = JNum 0"
    "combinedHighlights c = Some [JStr ''docs'', JStr ''tests'']" "combined c = True"
    unfolding f using c by blast
  then show ?thesis using e n p by blast
qed

section \<open>Properties of the Secondary Analyzer Adapter\<close>

lemma rejection_message_nonempty:
  "pythonAnalyzeRepository parse outcome = Inl message \<Longrightarrow> message \<noteq> []"
  by (auto simp: pythonAnalyzeRepository_def Let_def
      split: process_outcome.splits if_splits sum.splits)

lemma merge_error_record:
  "message \<noteq> [] \<Longrightarrow>
   mergeMetrics nodeMetrics [(''error'', JStr message)]
     = Inr (RepositoryMetrics.extend nodeMetrics
             \<lparr>pythonAnalysis = AnalysisError (Some (JStr message)),
              combinedHighlights = None, combined = True\<rparr>)"
  by (simp add: mergeMetrics_def truthyProp_def getProp_def)

lemma analysis_continues:
  assumes "pythonAnalyzeRepository parse outcome = Inl message"
  shows "analyzeRepository parse branch tempRepoPath listing outcome
     = Inr (RepositoryMetrics.extend ((computeMetrics tempRepoPath listing)\<lparr>usedBranch := Some branch\<rparr>)
             \<lparr>pythonAnalysis = AnalysisError (Some (JStr message)),
              combinedHighlights = None, combined = True\<rparr>)"
  using assms rejection_message_nonempty [OF assms]
  by (simp add: analyzeRepository_def Let_def merge_error_record)

lemma find_Some_in: "List.find P xs = Some x \<Longrightarrow> x \<in> set xs \<and> P x"
  by (induction xs) (auto split: if_splits)

lemma findJsonLine_cases:
  "findJsonLine lines = [] \<or>
   (\<exists>line \<in> set lines. findJsonLine lines = trim line
      \<and> startsWith (trim line) ''{'' \<and> endsWith (trim line) ''}'')"
proof (cases "List.find (\<lambda>line. startsWith line ''{'' \<and> endsWith line ''}'') (rev (map trim lines))")
  case None
  then show ?thesis by (simp add: findJsonLine_def)
next
  case (Some l)
  then have "l \<in> set (rev (map trim lines))" and "startsWith l ''{'' \<and> endsWith l ''}''"
    using find_Some_in [OF Some] by simp_all
  then show ?thesis using Some by (auto simp: findJsonLine_def)
qed

lemma failure_rejects:
  assumes "secondaryFailure parse outcome"
  shows "\<exists>message. pythonAnalyzeRepository parse outcome = Inl message"
proof (cases outcome)
  case (Closed code stdout stderr)
  show ?thesis
  proof (cases "code \<noteq> Some 0")
    case True
    then show ?thesis using Closed by (simp add: pythonAnalyzeRepository_def)
  next
    case False
    then have none: "list_all (\<lambda>line. \<not> completeRecord parse line) (split_on newline (trim stdout))"
      using assms Closed by simp
    from findJsonLine_cases [of "split_on newline (trim stdout)"]
    show ?thesis
    proof
      assume "findJsonLine (split_on newline (trim stdout)) = []"
      then show ?thesis using Closed False by (simp add: pythonAnalyzeRepository_def)
    next
      assume "\<exists>line \<in> set (split_on newline (trim stdout)).
                findJsonLine (split_on newline (trim stdout)) = trim line
                \<and> startsWith (trim line) ''{'' \<and> endsWith (trim line) ''}''"
      then obtain line where l: "line \<in> set (split_on newline (trim stdout))"
        and f: "findJsonLine (split_on newline (trim stdout)) = trim line"
        and b: "startsWith (trim line) ''{''" "endsWith (trim line) ''}''"
        by blast
      have "\<not> completeRecord parse line"
        using none l by (simp add: list_all_iff)
      then obtain m where "parse (trim line) = Inl m"
        using b by (auto simp: completeRecord_def split: sum.splits)
      then show ?thesis
        using Closed False f by (simp add: pythonAnalyzeRepository_def Let_def)
    qed
  qed
next
  case (SpawnError m)
  then show ?thesis by (simp add: pythonAnalyzeRepository_def)
next
  case TimedOut
  then show ?thesis by (simp add: pythonAnalyzeRepository_def)
qed


text \<open>
  Claim C7. When the secondary analyzer fails (the process exits with a code other than
  0, no line of its output is a complete structured record, or the timer of 60 seconds
  fires first; a process that cannot be started is covered as well), its promise is
  rejected and no exception reaches the caller of the analysis: the run returns the
  primary metrics unchanged, with the branch used, together with an error record that
  holds the message of the rejection.
\<close>

theorem secondary_failure_degrades:
  assumes "secondaryFailure parse outcome"
  shows "\<exists>message c.
           pythonAnalyzeRepository parse outcome = Inl message
           \<and> analyzeRepository parse branch tempRepoPath listing outcome = Inr c
           \<and> RepositoryMetrics.truncate c
               = (computeMetrics tempRepoPath listing)\<lparr>usedBranch := Some branch\<rparr>
           \<and> pythonAnalysis c = AnalysisError (Some (JStr message))
           \<and> message \<noteq> []
           \<and> combined c = True"
proof -
  obtain message where m: "pythonAnalyzeRepository parse outcome = Inl message"
    using failure_rejects [OF assms] by blast
  show ?thesis
    using m rejection_message_nonempty [OF m]
      analysis_continues [OF m, of branch tempRepoPath listing]
    by (simp add: RepositoryMetrics.extend_def RepositoryMetrics.truncate_def)
qed


text \<open>One run for each of the three failure modes of the claim.\<close>

theorem secondary_failure_degrades_witness:
  "secondaryFailure (\<lambda>line. Inl ''Unexpected token'') (Closed (Some 1) '''' ''Traceback'')
   \<and> (\<exists>message c.
        pythonAnalyzeRepository (\<lambda>line. Inl ''Unexpected token'') (Closed (Some 1) '''' ''Traceback'')
          = Inl message
        \<and> analyzeRepository (\<lambda>line. Inl ''Unexpected token'') ''main'' ''/tmp/repo'' (Some [])
            (Closed (Some 1) '''' ''Traceback'') = Inr c
        \<and> pythonAnalysis c = AnalysisError (Some (JStr message))
        \<and> combined c = True)
   \<and> secondaryFailure (\<lambda>line. Inl ''Unexpected token'') (Closed (Some 0) ''scanning\<newline>{oops}'' '''')
   \<and> (\<exists>message c.
        pythonAnalyzeRepository (\<lambda>line. Inl ''Unexpected token'') (Closed (Some 0) ''scanning\<newline>{oops}'' '''')
          = Inl message
        \<and> analyzeRepository (\<lambda>line. Inl ''Unexpected token'') ''main'' ''/tmp/repo'' (Some [])
            (Closed (Some 0) ''scanning\<newline>{oops}'' '''') = Inr c
        \<and> pythonAnalysis c = AnalysisError (Some (JStr message))
        \<and> combined c = True)
   \<and> secondaryFailure (\<lambda>line. Inl ''Unexpected token'') TimedOut
   \<and> (\<exists>message c.
        pythonAnalyzeRepository (\<lambda>line. Inl ''Unexpected token'') TimedOut = Inl message
        \<and> analyzeRepository (\<lambda>line. Inl ''Unexpected token'') ''main'' ''/tmp/repo'' (Some []) TimedOut
            = Inr c
        \<and> pythonAnalysis c = AnalysisError (Some (JStr message))
        \<and> combined c = True)"
proof -
  let ?parse = "\<lambda>line :: string. (Inl ''Unexpected token'' :: string + object)"
  have a: "secondaryFailure ?parse (Closed (Some 1) '''' ''Traceback'')" by simp
  have b: "secondaryFailure ?parse (Closed (Some 0) ''scanning\<newline>{oops}'' '''')"
    by (simp add: completeRecord_def list_all_iff)
  have c: "secondaryFailure ?parse TimedOut" by simp
  show ?thesis
    using a b c
      secondary_failure_degrades [OF a, of "''main''" "''/tmp/repo''" "Some []"]
      secondary_failure_degrades [OF b, of "''main''" "''/tmp/repo''" "Some []"]
      secondary_failure_degrades [OF c, of "''main''" "''/tmp/repo''" "Some []"]
    by blast
qed

text \<open>
  Claim C3. When the secondary metrics carry an error marker, that is, a property
  \<^verbatim>\<open>error\<close> whose value counts as true (every message the analyzer itself stores
  there does, being a non-empty string), the merger returns a result: all properties of
  the primary metrics as they were, the error record, and \<open>combined\<close> set. A rejected
  secondary analysis therefore never makes the run fail: the run returns the primary
  metrics with the error record.
\<close>

theorem merge_with_error_marker:
  "(getProp pythonMetrics ''error'' = Some e \<and> truthy e \<longrightarrow>
      (\<exists>c. mergeMetrics nodeMetrics pythonMetrics = Inr c
           \<and> RepositoryMetrics.truncate c = nodeMetrics
           \<and> totalFiles c = totalFiles nodeMetrics
           \<and> totalLines c = totalLines nodeMetrics
           \<and> commentLines c = commentLines nodeMetrics
           \<and> commentsRatio c = commentsRatio nodeMetrics
           \<and> hasReadme c = hasReadme nodeMetrics
           \<and> hasTests c = hasTests nodeMetrics
           \<and> fileTypes c = fileTypes nodeMetrics
           \<and> usedBranch c = usedBranch nodeMetrics
           \<and> codeSamples c = codeSamples nodeMetrics
           \<and> aiPatterns c = aiPatterns nodeMetrics
           \<and> pythonAnalysis c = AnalysisError (Some e)
           \<and> combined c = True))
   \<and> (pythonAnalyzeRepository parse outcome = Inl message \<longrightarrow>
      (\<exists>c. analyzeRepository parse branch tempRepoPath listing outcome = Inr c
           \<and> RepositoryMetrics.truncate c
               = (computeMetrics tempRepoPath listing)\<lparr>usedBranch := Some branch\<rparr>
           \<and> pythonAnalysis c = AnalysisError (Some (JStr message))
           \<and> combined c = True))"
proof (intro conjI impI)
  assume "getProp pythonMetrics ''error'' = Some e \<and> truthy e"
  then show "\<exists>c. mergeMetrics nodeMetrics pythonMetrics = Inr c
           \<and> RepositoryMetrics.truncate c = nodeMetrics
           \<and> totalFiles c = totalFiles nodeMetrics
           \<and> totalLines c = totalLines nodeMetrics
           \<and> commentLines c = commentLines nodeMetrics
           \<and> commentsRatio c = commentsRatio nodeMetrics
           \<and> hasReadme c = hasReadme nodeMetrics
           \<and> hasTests c = hasTests nodeMetrics
           \<and> fileTypes c = fileTypes nodeMetrics
           \<and> usedBranch c = usedBranch nodeMetrics
           \<and> codeSamples c = codeSamples nodeMetrics
           \<and> aiPatterns c = aiPatterns nodeMetrics
           \<and> pythonAnalysis c = AnalysisError (Some e)
           \<and> combined c = True"
    by (simp add: mergeMetrics_def truthyProp_def RepositoryMetrics.extend_def
        RepositoryMetrics.truncate_def)
next
  assume m: "pythonAnalyzeRepository parse outcome = Inl message"
  show "\<exists>c. analyzeRepository parse branch tempRepoPath listing outcome = Inr c
           \<and> RepositoryMetrics.truncate c
               = (computeMetrics tempRepoPath listing)\<lparr>usedBranch := Some branch\<rparr>
           \<and> pythonAnalysis c = AnalysisError (Some (JStr message))
           \<and> combined c = True"
    using analysis_continues [OF m, of branch tempRepoPath listing]
    by (simp add: RepositoryMetrics.extend_def RepositoryMetrics.truncate_def)
qed

text \<open>The marker of a timeout, merged alone and through a whole run.\<close>

theorem merge_with_error_marker_witness:
  "getProp [(''error'', JStr ''Python analyzer timeout'')] ''error''
     = Some (JStr ''Python analyzer timeout'')
   \<and> truthy (JStr ''Python analyzer timeout'')
   \<and> (\<exists>c. mergeMetrics (computeMetrics ''/tmp/repo'' (Some [File ''a.py'' (Some ''# c'')]))
              [(''error'', JStr ''Python analyzer timeout'')] = Inr c
          \<and> RepositoryMetrics.truncate c
              = computeMetrics ''/tmp/repo'' (Some [File ''a.py'' (Some ''# c'')])
          \<and> pythonAnalysis c = AnalysisError (Some (JStr ''Python analyzer timeout''))
          \<and> combined c = True)
   \<and> pythonAnalyzeRepository (\<lambda>line. Inr []) TimedOut = Inl ''Python analyzer timeout''
   \<and> (\<exists>c. analyzeRepository (\<lambda>line. Inr []) ''main'' ''/tmp/repo''
              (Some [File ''a.py'' (Some ''# c'')]) TimedOut = Inr c
          \<and> RepositoryMetrics.truncate c
              = (computeMetrics ''/tmp/repo'' (Some [File ''a.py'' (Some ''# c'')]))
                  \<lparr>usedBranch := Some ''main''\<rparr>
          \<and> pythonAnalysis c = AnalysisError (Some (JStr ''Python analyzer timeout''))
          \<and> combined c = True)"
proof -
  have g: "getProp [(''error'', JStr ''Python analyzer timeout'')] ''error''
     = Some (JStr ''Python analyzer timeout'')"
    by (simp add: getProp_def)
  have t: "truthy (JStr ''Python analyzer timeout'')" by simp
  have r: "pythonAnalyzeRepository (\<lambda>line. Inr []) TimedOut = Inl ''Python analyzer timeout''"
    by (simp add: pythonAnalyzeRepository_def)
  show ?thesis
    using g t r
      merge_with_error_marker [of "[(''error'', JStr ''Python analyzer timeout'')]"
        "JStr ''Python analyzer timeout''"
        "computeMetrics ''/tmp/repo'' (Some [File ''a.py'' (Some ''# c'')])"
        "\<lambda>line. Inr []" TimedOut "''Python analyzer timeout''"
        "''main''" "''/tmp/repo''" "Some [File ''a.py'' (Some ''# c'')]"]
    by blast
qed


end
